theory Spec2Isabelle
  imports Complex_Main "HOL-Library.Word" "HOL-Library.Log_Nat" "HOL-Library.Monad_Syntax"
begin

unbundle bit_operations_syntax

section \<open>Arithmetic of the C++ source\<close>

text \<open>
  The CPU side of \<^verbatim>\<open>Main.cpp\<close> computes with \<^verbatim>\<open>unsigned\<close> (32 bits, wrapping),
  \<^verbatim>\<open>int\<close> (32 bits, signed) and \<^verbatim>\<open>float\<close> (IEEE-754 binary32).  Unsigned values are
  \<open>32 word\<close>.  Signed values are \<open>int\<close>; the one place where an \<^verbatim>\<open>int\<close> is produced from
  an unbounded quantity, the cast \<^verbatim>\<open>(int)floorf(x)\<close>, checks the range and is undefined
  (\<open>None\<close>) outside it, as in C++; a second reading, \<open>to_int_cvt\<close>, goes on with the
  \<^verbatim>\<open>int\<close> that the conversion delivers there.  A finite \<^verbatim>\<open>float\<close> is the real number it denotes and
  every operation rounds its exact result to binary32 with \<open>fl\<close> (round to nearest, ties
  to even, gradual underflow), one rounding per operation and no fused multiply-add.
  Infinities and NaN are not values of the model: \<open>fl\<close> has no largest exponent, and the
  accumulators of the bake, the only values that can grow, are checked against
  \<^verbatim>\<open>FLT_MAX\<close>, beyond which the bake is undefined (\<open>None\<close>) in the model.  Inside \<open>noise\<close> no
  value exceeds \<open>2\<^sup>2\<^sup>7\<close> in magnitude.
\<close>

type_synonym u32 = "32 word"

definition ilog2 :: "real \<Rightarrow> int" where
  \<comment> \<open>\<open>\<lfloor>log\<^sub>2 r\<rfloor>\<close> for \<open>r > 0\<close>, computed on integers\<close>
  "ilog2 r = (if 1 \<le> r then bitlen \<lfloor>r\<rfloor> - 1 else - bitlen (\<lceil>1 / r\<rceil> - 1))"

definition round_even :: "real \<Rightarrow> int" where
  \<comment> \<open>nearest integer, ties to the even one\<close>
  "round_even r =
     (let n = \<lfloor>r\<rfloor>; d = r - of_int n
      in if d < 1 / 2 then n else if 1 / 2 < d then n + 1 else if even n then n else n + 1)"

definition ulp_exp :: "real \<Rightarrow> int" where
  \<comment> \<open>exponent of the unit in the last place of binary32 at magnitude \<open>r > 0\<close>:
      24 significant bits, smallest exponent \<open>-126\<close>\<close>
  "ulp_exp r = max (ilog2 r) (- 126) - 23"

definition flpos :: "real \<Rightarrow> real" where
  \<comment> \<open>rounding of a magnitude \<open>r > 0\<close> to the grid of multiples of its unit in the last place\<close>
  "flpos r = of_int (round_even (r / 2 powi ulp_exp r)) * 2 powi ulp_exp r"

definition fl :: "real \<Rightarrow> real" where
  "fl x = (if x = 0 then 0 else if 0 < x then flpos x else - flpos (- x))"

definition fadd :: "real \<Rightarrow> real \<Rightarrow> real" where "fadd a b = fl (a + b)"
definition fsub :: "real \<Rightarrow> real \<Rightarrow> real" where "fsub a b = fl (a - b)"
definition fmul :: "real \<Rightarrow> real \<Rightarrow> real" where "fmul a b = fl (a * b)"
definition fdiv :: "real \<Rightarrow> real \<Rightarrow> real" where "fdiv a b = fl (a / b)"

definition FLT_MAX :: real where
  "FLT_MAX = (2 ^ 24 - 1) * 2 ^ 104"

definition finite32 :: "real \<Rightarrow> real option" where
  \<comment> \<open>a result beyond \<^verbatim>\<open>FLT_MAX\<close> would be an infinity: it leaves the model\<close>
  "finite32 v = (if \<bar>v\<bar> \<le> FLT_MAX then Some v else None)"

definition floorf :: "real \<Rightarrow> real" where
  \<comment> \<open>the floor of a binary32 value is a binary32 value: no rounding\<close>
  "floorf v = of_int \<lfloor>v\<rfloor>"

definition to_int :: "real \<Rightarrow> int option" where
  \<comment> \<open>\<^verbatim>\<open>(int)v\<close>: truncation toward zero, undefined when the result is not an \<^verbatim>\<open>int\<close>\<close>
  "to_int v =
     (let t = (if 0 \<le> v then \<lfloor>v\<rfloor> else \<lceil>v\<rceil>)
      in if - (2 ^ 31) \<le> t \<and> t < 2 ^ 31 then Some t else None)"

definition roundf :: "real \<Rightarrow> real" where
  \<comment> \<open>\<^verbatim>\<open>std::round\<close>: nearest integer, halfway cases away from zero; the result is exact\<close>
  "roundf v = (if 0 \<le> v then of_int \<lfloor>v + 1 / 2\<rfloor> else - of_int \<lfloor>- v + 1 / 2\<rfloor>)"

definition to_uchar :: "real \<Rightarrow> nat option" where
  \<comment> \<open>\<^verbatim>\<open>(unsigned char)v\<close>: truncation toward zero, undefined when the result is not in \<open>0..255\<close>\<close>
  "to_uchar v =
     (let t = (if 0 \<le> v then \<lfloor>v\<rfloor> else \<lceil>v\<rceil>)
      in if 0 \<le> t \<and> t \<le> 255 then Some (nat t) else None)"

section \<open>Tiny helpers\<close>

definition clamp01 :: "real \<Rightarrow> real" where
  "clamp01 v = (if v < 0 then 0 else (if v > 1 then 1 else v))"

section \<open>3D Perlin noise (CPU)\<close>

definition fade :: "real \<Rightarrow> real" where
  "fade t = fmul (fmul (fmul t t) t) (fadd (fmul t (fsub (fmul t 6) 15)) 10)"

definition lerp :: "real \<Rightarrow> real \<Rightarrow> real \<Rightarrow> real" where
  "lerp a b t = fadd a (fmul (fsub b a) t)"

definition grad :: "int \<Rightarrow> real \<Rightarrow> real \<Rightarrow> real \<Rightarrow> real" where
  "grad hash x y z =
     (let h = hash AND 15;
          u = (if h < 8 then x else y);
          v = (if h < 4 then y else (if h = 12 \<or> h = 14 then x else z))
      in fadd (if h AND 1 \<noteq> 0 then - u else u) (if h AND 2 \<noteq> 0 then - v else v))"

record Perlin3D =
  p :: "int list"

definition lcg :: "u32 \<Rightarrow> u32" where
  "lcg s = s * 1664525 + 1013904223"

definition swap :: "int list \<Rightarrow> nat \<Rightarrow> nat \<Rightarrow> int list" where
  \<comment> \<open>\<^verbatim>\<open>std::swap(perm[i], perm[j])\<close>\<close>
  "swap perm i j = perm[i := perm ! j, j := perm ! i]"

fun shuffle :: "nat \<Rightarrow> u32 \<Rightarrow> int list \<Rightarrow> int list" where
  \<comment> \<open>\<^verbatim>\<open>for (int i = 255; i > 0; --i)\<close>, entered with \<open>i\<close> as first argument\<close>
  "shuffle 0 s perm = perm"
| "shuffle (Suc k) s perm =
     (let i = Suc k;
          s' = lcg s;
          j = unat (s' mod of_nat (i + 1))
      in shuffle k s' (swap perm i j))"

text \<open>
  The constructor.  The member \<^verbatim>\<open>p\<close> is default-initialised: its 512 entries hold
  indeterminate values \<open>junk\<close> until the last loop has written them; \<^verbatim>\<open>perm\<close> is
  value-initialised to zeros.
\<close>

definition Perlin3D_new :: "u32 \<Rightarrow> (nat \<Rightarrow> int) \<Rightarrow> Perlin3D" where
  "Perlin3D_new seed junk =
     (let perm0 = replicate 256 0;
          perm1 = fold (\<lambda>i perm. perm[i := int i]) [0..<256] perm0;
          perm2 = shuffle 255 seed perm1;
          p0 = map junk [0..<512]
      in \<lparr>p = fold (\<lambda>i pp. pp[i := perm2 ! nat (int i AND 255)]) [0..<512] p0\<rparr>)"

definition shuffled :: "u32 \<Rightarrow> int list" where
  \<comment> \<open>\<^verbatim>\<open>perm\<close> when the shuffle loop has finished\<close>
  "shuffled seed = shuffle 255 seed (map int [0..<256])"

definition rd :: "int list \<Rightarrow> int \<Rightarrow> int option" where
  \<comment> \<open>\<^verbatim>\<open>p[i]\<close> on a \<^verbatim>\<open>std::array\<close>: undefined outside the array\<close>
  "rd a i = (if 0 \<le> i \<and> i < int (length a) then Some (a ! nat i) else None)"

definition noise_value :: "int \<Rightarrow> int \<Rightarrow> int \<Rightarrow> int \<Rightarrow> int \<Rightarrow> int \<Rightarrow> int \<Rightarrow> int
    \<Rightarrow> real \<Rightarrow> real \<Rightarrow> real \<Rightarrow> real" where
  \<comment> \<open>the arithmetic of \<^verbatim>\<open>noise\<close> once the eight corner hashes are read: \<open>x\<close>, \<open>y\<close>, \<open>z\<close>
      are the offsets within the cell\<close>
  "noise_value hAA hBA hAB hBB hAA1 hBA1 hAB1 hBB1 x y z =
     (let u = fade x; v = fade y; w = fade z;
          res = lerp
            (lerp (lerp (grad hAA x y z)
                        (grad hBA (fsub x 1) y z) u)
                  (lerp (grad hAB x (fsub y 1) z)
                        (grad hBB (fsub x 1) (fsub y 1) z) u) v)
            (lerp (lerp (grad hAA1 x y (fsub z 1))
                        (grad hBA1 (fsub x 1) y (fsub z 1)) u)
                  (lerp (grad hAB1 x (fsub y 1) (fsub z 1))
                        (grad hBB1 (fsub x 1) (fsub y 1) (fsub z 1)) u) v)
            w
      in fmul (1 / 2) (fadd res 1))"

definition noise :: "Perlin3D \<Rightarrow> real \<Rightarrow> real \<Rightarrow> real \<Rightarrow> real option" where
  "noise P x y z = do {
     X0 \<leftarrow> to_int (floorf x);
     Y0 \<leftarrow> to_int (floorf y);
     Z0 \<leftarrow> to_int (floorf z);
     let X = X0 AND 255;
     let Y = Y0 AND 255;
     let Z = Z0 AND 255;
     let x = fsub x (floorf x);
     let y = fsub y (floorf y);
     let z = fsub z (floorf z);
     pX \<leftarrow> rd (p P) X;
     let A = pX + Y;
     pA \<leftarrow> rd (p P) A;
     let AA = pA + Z;
     pA1 \<leftarrow> rd (p P) (A + 1);
     let AB = pA1 + Z;
     pX1 \<leftarrow> rd (p P) (X + 1);
     let B = pX1 + Y;
     pB \<leftarrow> rd (p P) B;
     let BA = pB + Z;
     pB1 \<leftarrow> rd (p P) (B + 1);
     let BB = pB1 + Z;
     hAA \<leftarrow> rd (p P) AA;
     hBA \<leftarrow> rd (p P) BA;
     hAB \<leftarrow> rd (p P) AB;
     hBB \<leftarrow> rd (p P) BB;
     hAA1 \<leftarrow> rd (p P) (AA + 1);
     hBA1 \<leftarrow> rd (p P) (BA + 1);
     hAB1 \<leftarrow> rd (p P) (AB + 1);
     hBB1 \<leftarrow> rd (p P) (BB + 1);
     Some (noise_value hAA hBA hAB hBB hAA1 hBA1 hAB1 hBB1 x y z)
   }"

definition noise_indices :: "Perlin3D \<Rightarrow> int \<Rightarrow> int \<Rightarrow> int \<Rightarrow> int list" where
  \<comment> \<open>the subscripts of \<^verbatim>\<open>p\<close> that \<^verbatim>\<open>noise\<close> computes when the three casts give
      \<open>X0\<close>, \<open>Y0\<close>, \<open>Z0\<close>\<close>
  "noise_indices P X0 Y0 Z0 =
     (let X = X0 AND 255; Y = Y0 AND 255; Z = Z0 AND 255;
          A = p P ! nat X + Y; AA = p P ! nat A + Z; AB = p P ! nat (A + 1) + Z;
          B = p P ! nat (X + 1) + Y; BA = p P ! nat B + Z; BB = p P ! nat (B + 1) + Z
      in [X, X + 1, A, A + 1, B, B + 1,
          AA, AA + 1, AB, AB + 1, BA, BA + 1, BB, BB + 1])"

text \<open>
  C++ gives the cast \<^verbatim>\<open>(int)floorf(x)\<close> no meaning when the value is not an \<^verbatim>\<open>int\<close>, yet
  the compiled program does not stop there: the conversion instruction delivers some
  \<^verbatim>\<open>int\<close> and \<^verbatim>\<open>noise\<close> goes on with it.  \<open>to_int_cvt cvt\<close> is the cast with that result
  supplied: it is \<open>to_int\<close> wherever \<open>to_int\<close> is defined and \<open>cvt v\<close> elsewhere, and
  \<open>noise_cvt cvt\<close> is \<^verbatim>\<open>noise\<close> with the three casts read this way.  The function \<open>cvt\<close> is
  arbitrary; \<open>indefinite\<close> is the one of the x86 conversion instructions, which store
  \<^verbatim>\<open>0x80000000\<close> for every operand outside the range.
\<close>

definition to_int_cvt :: "(real \<Rightarrow> int) \<Rightarrow> real \<Rightarrow> int" where
  "to_int_cvt cvt v = (case to_int v of Some t \<Rightarrow> t | None \<Rightarrow> cvt v)"


definition noise_cvt :: "(real \<Rightarrow> int) \<Rightarrow> Perlin3D \<Rightarrow> real \<Rightarrow> real \<Rightarrow> real \<Rightarrow> real option" where
  "noise_cvt cvt P x y z = do {
     let X = to_int_cvt cvt (floorf x) AND 255;
     let Y = to_int_cvt cvt (floorf y) AND 255;
     let Z = to_int_cvt cvt (floorf z) AND 255;
     let x = fsub x (floorf x);
     let y = fsub y (floorf y);
     let z = fsub z (floorf z);
     pX \<leftarrow> rd (p P) X;
     let A = pX + Y;
     pA \<leftarrow> rd (p P) A;
     let AA = pA + Z;
     pA1 \<leftarrow> rd (p P) (A + 1);
     let AB = pA1 + Z;
     pX1 \<leftarrow> rd (p P) (X + 1);
     let B = pX1 + Y;
     pB \<leftarrow> rd (p P) B;
     let BA = pB + Z;
     pB1 \<leftarrow> rd (p P) (B + 1);
     let BB = pB1 + Z;
     hAA \<leftarrow> rd (p P) AA;
     hBA \<leftarrow> rd (p P) BA;
     hAB \<leftarrow> rd (p P) AB;
     hBB \<leftarrow> rd (p P) BB;
     hAA1 \<leftarrow> rd (p P) (AA + 1);
     hBA1 \<leftarrow> rd (p P) (BA + 1);
     hAB1 \<leftarrow> rd (p P) (AB + 1);
     hBB1 \<leftarrow> rd (p P) (BB + 1);
     Some (noise_value hAA hBA hAB hBB hAA1 hBA1 hAB1 hBB1 x y z)
   }"

section \<open>The baked volume\<close>

fun fbm :: "nat \<Rightarrow> Perlin3D \<Rightarrow> real \<Rightarrow> real \<Rightarrow> real \<Rightarrow> real \<Rightarrow> real
    \<Rightarrow> real \<times> real \<times> real \<Rightarrow> (real \<times> real \<times> real) option" where
  \<comment> \<open>\<^verbatim>\<open>for (int o = 0; o < octaves; ++o)\<close> with the iterations left as first argument;
      the state is \<open>(f, amp, freq)\<close>\<close>
  "fbm 0 per lacunarity gain fx fy fz st = Some st"
| "fbm (Suc n) per lacunarity gain fx fy fz (f, amp, freq) = do {
     nz \<leftarrow> noise per (fmul (fmul fx freq) 8) (fmul (fmul fy freq) 8) (fmul (fmul fz freq) 8);
     f' \<leftarrow> finite32 (fadd f (fmul amp nz));
     freq' \<leftarrow> finite32 (fmul freq lacunarity);
     amp' \<leftarrow> finite32 (fmul amp gain);
     fbm n per lacunarity gain fx fy fz (f', amp', freq')
   }"

definition bake_cell :: "Perlin3D \<Rightarrow> int \<Rightarrow> real \<Rightarrow> real \<Rightarrow> real \<Rightarrow> int \<Rightarrow> int \<Rightarrow> int \<Rightarrow> nat option"
  where
  "bake_cell per octaves lacunarity gain invN x y z = do {
     let fx = fmul (fl (of_int x)) invN;
     let fy = fmul (fl (of_int y)) invN;
     let fz = fmul (fl (of_int z)) invN;
     (f, amp, freq) \<leftarrow> fbm (nat octaves) per lacunarity gain fx fy fz (0, 1, 1);
     let f = clamp01 (fdiv f (fl (3 / 2)));
     to_uchar (roundf (fmul f 255))
   }"

definition for_upto :: "nat \<Rightarrow> (nat \<Rightarrow> 's \<Rightarrow> 's option) \<Rightarrow> 's \<Rightarrow> 's option" where
  \<comment> \<open>\<^verbatim>\<open>for (int i = 0; i < n; ++i) body\<close> over a state, stopping where the body is undefined\<close>
  "for_upto n body s = fold (\<lambda>i acc. Option.bind acc (body i)) [0..<n] (Some s)"

definition make3DNoiseTex :: "int \<Rightarrow> int \<Rightarrow> real \<Rightarrow> real \<Rightarrow> u32 \<Rightarrow> (nat \<Rightarrow> int) \<Rightarrow> nat list option"
  where
  \<comment> \<open>the voxel grid handed to \<^verbatim>\<open>glTexImage3D\<close>; \<^verbatim>\<open>N * N * N\<close> is \<^verbatim>\<open>int\<close> arithmetic
      and a negative size cannot be allocated\<close>
  "make3DNoiseTex N octaves lacunarity gain seed junk =
     (if N < 0 \<or> 2 ^ 31 \<le> N * N * N then None
      else do {
        let per = Perlin3D_new seed junk;
        let vox = replicate (nat (N * N * N)) 0;
        let invN = fdiv 1 (fl (of_int N));
        for_upto (nat N) (\<lambda>z vox.
          for_upto (nat N) (\<lambda>y vox.
            for_upto (nat N) (\<lambda>x vox. do {
              b \<leftarrow> bake_cell per octaves lacunarity gain invN (int x) (int y) (int z);
              Some (vox[nat ((int z * N + int y) * N + int x) := b])
            }) vox) vox) vox
      })"

section \<open>Shaders\<close>

text \<open>
  The fragment shaders are GLSL; the precision of GLSL arithmetic is left to the
  implementation, so shader values are real numbers and the built-in functions are the
  ones the GLSL specification defines.
\<close>

definition glsl_clamp :: "real \<Rightarrow> real \<Rightarrow> real \<Rightarrow> real" where
  "glsl_clamp x lo hi = min (max x lo) hi"

definition smoothstep :: "real \<Rightarrow> real \<Rightarrow> real \<Rightarrow> real" where
  "smoothstep edge0 edge1 x =
     (let t = glsl_clamp ((x - edge0) / (edge1 - edge0)) 0 1 in t * t * (3 - 2 * t))"

definition mix :: "real \<Rightarrow> real \<Rightarrow> real \<Rightarrow> real" where
  "mix a b t = a * (1 - t) + b * t"

record vec4 =
  red :: real
  green :: real
  blue :: real
  alpha :: real

record smoke_uniforms =
  uTime :: real
  uScale :: real
  uSpeed :: real
  uSoftEdge :: real
  uOpacity :: real

definition smoke_wave :: "smoke_uniforms \<Rightarrow> real \<times> real \<Rightarrow> real" where
  "smoke_wave U uv =
     sin (snd uv * 8 + uTime U * (8 / 10)) * (1 / 10) +
     sin (snd uv * (35 / 10) + uTime U * (4 / 10)) * (5 / 100)"

definition smoke_mask :: "smoke_uniforms \<Rightarrow> real \<times> real \<Rightarrow> real" where
  "smoke_mask U uv =
     (let dx = \<bar>fst uv - 5 / 10 - smoke_wave U uv\<bar>;
          halfW = 35 / 100;
          edge = uSoftEdge U * (8 / 10)
      in 1 - smoothstep (halfW - edge) halfW dx)"

definition smoke_p :: "smoke_uniforms \<Rightarrow> real \<times> real \<Rightarrow> real \<times> real \<times> real" where
  "smoke_p U uv =
     (let z = uTime U * uSpeed U
      in (fst uv * uScale U + smoke_wave U uv, snd uv * uScale U, z))"

definition smoke_fadeUp :: "real \<times> real \<Rightarrow> real" where
  "smoke_fadeUp uv = smoothstep 0 1 (snd uv)"

definition smoke_density :: "real \<Rightarrow> real \<times> real \<Rightarrow> real" where
  "smoke_density n uv =
     glsl_clamp (n * (12 / 10) - 25 / 100 + (1 - smoke_fadeUp uv) * (15 / 100)) 0 1"

definition FRAG_SMOKE :: "(real \<times> real \<times> real \<Rightarrow> real) \<Rightarrow> smoke_uniforms \<Rightarrow> real \<times> real \<Rightarrow> vec4" where
  \<comment> \<open>\<open>uNoise\<close> is the red channel of the sampled 3D texture\<close>
  "FRAG_SMOKE uNoise U vUV =
     (let uv = vUV;
          mask = smoke_mask U uv;
          n = uNoise (smoke_p U uv);
          fadeUp = smoke_fadeUp uv;
          density = smoke_density n uv;
          a = mask * density * uOpacity U;
          c = mix (2 / 10) (55 / 100) fadeUp * density
      in \<lparr>red = c, green = c, blue = c, alpha = a\<rparr>)"

section \<open>Blending\<close>

text \<open>
  \<^verbatim>\<open>glBlendFunc(sfactor, dfactor)\<close> with the default equation \<^verbatim>\<open>GL_FUNC_ADD\<close> on a
  fixed-point framebuffer: every channel of the source is scaled by the source factor, every
  channel of the destination by the destination factor, and the sum is clamped to \<open>[0,1]\<close>.
\<close>

datatype blend_factor = GL_SRC_ALPHA | GL_ONE | GL_ONE_MINUS_SRC_ALPHA

fun factor :: "blend_factor \<Rightarrow> vec4 \<Rightarrow> real" where
  "factor GL_SRC_ALPHA src = alpha src"
| "factor GL_ONE src = 1"
| "factor GL_ONE_MINUS_SRC_ALPHA src = 1 - alpha src"

definition blend :: "blend_factor \<Rightarrow> blend_factor \<Rightarrow> vec4 \<Rightarrow> vec4 \<Rightarrow> vec4" where
  "blend sfactor dfactor src dst =
     (let s = factor sfactor src; d = factor dfactor src
      in \<lparr>red = glsl_clamp (red src * s + red dst * d) 0 1,
          green = glsl_clamp (green src * s + green dst * d) 0 1,
          blue = glsl_clamp (blue src * s + blue dst * d) 0 1,
          alpha = glsl_clamp (alpha src * s + alpha dst * d) 0 1\<rparr>)"

definition draw_fire :: "vec4 \<Rightarrow> vec4 \<Rightarrow> vec4" where
  \<comment> \<open>\<^verbatim>\<open>glBlendFunc(GL_SRC_ALPHA, GL_ONE)\<close>, then the fire quad\<close>
  "draw_fire fire dst = blend GL_SRC_ALPHA GL_ONE fire dst"

definition draw_smoke :: "vec4 \<Rightarrow> vec4 \<Rightarrow> vec4" where
  \<comment> \<open>\<^verbatim>\<open>glBlendFunc(GL_SRC_ALPHA, GL_ONE_MINUS_SRC_ALPHA)\<close>, then the smoke quad\<close>
  "draw_smoke smoke dst = blend GL_SRC_ALPHA GL_ONE_MINUS_SRC_ALPHA smoke dst"

definition composite :: "vec4 \<Rightarrow> vec4 \<Rightarrow> vec4 \<Rightarrow> vec4" where
  \<comment> \<open>one pixel of a frame of \<^verbatim>\<open>main\<close>: fire first, smoke over it\<close>
  "composite fire smoke dst = draw_smoke smoke (draw_fire fire dst)"

section \<open>Quick controls of the main loop\<close>

datatype key =
  KEY_LEFT_BRACKET | KEY_RIGHT_BRACKET | KEY_MINUS | KEY_EQUAL
  | KEY_W | KEY_S | KEY_D | KEY_A | KEY_1 | KEY_2

text \<open>
  The five variables of \<^verbatim>\<open>main\<close> that the keys change; the other layer parameters are
  never assigned after their initialisation.
\<close>

record params =
  fireScale :: real
  smokeScale :: real
  fireSpeed :: real
  smokeSpeed :: real
  fireHeight :: real

definition initial_params :: params where
  "initial_params =
     \<lparr>fireScale = fl (32 / 10), smokeScale = fl (22 / 10), fireSpeed = fl (75 / 100),
      smokeSpeed = fl (18 / 100), fireHeight = fl (55 / 100)\<rparr>"

definition controls :: "(key \<times> (params \<Rightarrow> params)) list" where
  \<comment> \<open>the ten statements \<^verbatim>\<open>if (glfwGetKey(win, K) == GLFW_PRESS) v = ...;\<close> in source
      order: the key tested and the assignment made\<close>
  "controls =
     [(KEY_LEFT_BRACKET, \<lambda>P0. P0\<lparr>smokeScale := max (fl (5 / 10)) (fsub (smokeScale P0) (fl (1 / 100)))\<rparr>),
      (KEY_RIGHT_BRACKET, \<lambda>P0. P0\<lparr>smokeScale := min (fl 6) (fadd (smokeScale P0) (fl (1 / 100)))\<rparr>),
      (KEY_MINUS, \<lambda>P0. P0\<lparr>fireScale := max (fl (8 / 10)) (fsub (fireScale P0) (fl (1 / 100)))\<rparr>),
      (KEY_EQUAL, \<lambda>P0. P0\<lparr>fireScale := min (fl 6) (fadd (fireScale P0) (fl (1 / 100)))\<rparr>),
      (KEY_W, \<lambda>P0. P0\<lparr>smokeSpeed := min (fl (8 / 10)) (fadd (smokeSpeed P0) (fl (1 / 1000)))\<rparr>),
      (KEY_S, \<lambda>P0. P0\<lparr>smokeSpeed := max (fl (2 / 100)) (fsub (smokeSpeed P0) (fl (1 / 1000)))\<rparr>),
      (KEY_D, \<lambda>P0. P0\<lparr>fireSpeed := min (fl 2) (fadd (fireSpeed P0) (fl (5 / 1000)))\<rparr>),
      (KEY_A, \<lambda>P0. P0\<lparr>fireSpeed := max (fl (5 / 100)) (fsub (fireSpeed P0) (fl (5 / 1000)))\<rparr>),
      (KEY_1, \<lambda>P0. P0\<lparr>fireHeight := max (fl (3 / 10)) (fsub (fireHeight P0) (fl (5 / 1000)))\<rparr>),
      (KEY_2, \<lambda>P0. P0\<lparr>fireHeight := min (fl (9 / 10)) (fadd (fireHeight P0) (fl (5 / 1000)))\<rparr>)]"

definition quick_controls :: "(key \<Rightarrow> bool) \<Rightarrow> params \<Rightarrow> params" where
  \<comment> \<open>one iteration: the statements run in order, each on the result of the one before;
      \<open>pressed\<close> is what \<^verbatim>\<open>glfwGetKey\<close> reports during that iteration\<close>
  "quick_controls pressed P0 = fold (\<lambda>(k, upd) Q. if pressed k then upd Q else Q) controls P0"

definition main_loop :: "(key \<Rightarrow> bool) list \<Rightarrow> params \<Rightarrow> params" where
  \<comment> \<open>the parameters after the iterations whose key states are listed\<close>
  "main_loop frames P0 = fold quick_controls frames P0"

definition in_range :: "params \<Rightarrow> bool" where
  \<comment> \<open>the bounds are the \<^verbatim>\<open>float\<close> literals of the source\<close>
  "in_range P0 \<longleftrightarrow>
     fl (5 / 10) \<le> smokeScale P0 \<and> smokeScale P0 \<le> fl 6 \<and>
     fl (8 / 10) \<le> fireScale P0 \<and> fireScale P0 \<le> fl 6 \<and>
     fl (2 / 100) \<le> smokeSpeed P0 \<and> smokeSpeed P0 \<le> fl (8 / 10) \<and>
     fl (5 / 100) \<le> fireSpeed P0 \<and> fireSpeed P0 \<le> fl 2 \<and>
     fl (3 / 10) \<le> fireHeight P0 \<and> fireHeight P0 \<le> fl (9 / 10)"


section \<open>Concrete inputs\<close>

text \<open>
  The permutation that the shuffle yields for seed 42, the seed of \<^verbatim>\<open>main\<close> (proved
  below to be the value of \<open>shuffled 42\<close>), and the uniforms of one smoke draw.
\<close>

definition smoke_example :: smoke_uniforms where
  \<comment> \<open>uniforms of a smoke draw at time \<open>5\<pi>/4\<close>\<close>
  "smoke_example = \<lparr>uTime = 5 * pi / 4, uScale = 2, uSpeed = 1 / 4, uSoftEdge = 35 / 100, uOpacity = 55 / 100\<rparr>"

definition perm42 :: "int list" where
  "perm42 =
     [124, 34, 26, 200, 24, 220, 22, 52, 61, 64, 6, 18, 12, 35, 208, 16, 240, 108, 30,
      224, 144, 23, 8, 44, 42, 39, 86, 148, 92, 91, 88, 63, 202, 196, 158, 120, 32, 98,
      46, 182, 58, 43, 56, 186, 192, 146, 172, 239, 78, 9, 20, 201, 164, 59, 38, 119,
      156, 130, 0, 76, 168, 236, 188, 71, 93, 122, 82, 225, 132, 150, 80, 205, 54, 211,
      243, 83, 126, 233, 95, 123, 226, 195, 72, 107, 36, 79, 222, 160, 50, 190, 67, 115,
      180, 3, 14, 110, 104, 159, 51, 187, 68, 105, 47, 112, 5, 55, 179, 161, 217, 77,
      178, 250, 152, 184, 134, 230, 216, 7, 170, 248, 166, 171, 27, 249, 62, 125, 97,
      143, 212, 29, 253, 210, 114, 227, 2, 65, 31, 37, 118, 151, 111, 99, 113, 189, 198,
      169, 141, 33, 176, 197, 221, 41, 25, 155, 116, 149, 48, 165, 4, 183, 140, 57, 219,
      69, 254, 103, 244, 234, 84, 19, 60, 85, 185, 173, 194, 232, 138, 223, 135, 251, 15,
      163, 102, 207, 162, 167, 96, 21, 204, 191, 90, 1, 128, 157, 154, 137, 181, 235,
      145, 231, 10, 75, 206, 153, 40, 209, 70, 255, 174, 87, 213, 109, 228, 214, 45, 89,
      11, 175, 215, 247, 94, 53, 100, 193, 131, 241, 74, 13, 147, 252, 203, 81, 229, 101,
      218, 246, 106, 127, 28, 17, 136, 242, 133, 73, 66, 49, 121, 177, 142, 245, 237,
      117, 199, 139, 238, 129]"

section \<open>The bake as the specification words it\<close>

text \<open>
  The fractal sum in the words of the specification: octave \<open>k\<close> has the frequency
  \<open>1\<close> multiplied \<open>k\<close> times by the lacunarity and the amplitude \<open>1\<close> multiplied \<open>k\<close>
  times by the gain, contributes amplitude times noise at the coordinates scaled by
  frequency and 8, and the contributions are summed from the first octave on.  The sum is
  divided by 1.5, clamped to \<open>[0,1]\<close>, scaled by 255 and rounded.  Products and sums are
  binary32 operations, taken in the order of the source.
\<close>

definition freq_at :: "real \<Rightarrow> nat \<Rightarrow> real" where
  "freq_at lacunarity k = ((\<lambda>q. fmul q lacunarity) ^^ k) 1"

definition amp_at :: "real \<Rightarrow> nat \<Rightarrow> real" where
  "amp_at gain k = ((\<lambda>q. fmul q gain) ^^ k) 1"

definition octave :: "Perlin3D \<Rightarrow> real \<Rightarrow> real \<Rightarrow> real \<Rightarrow> real \<Rightarrow> real \<Rightarrow> nat \<Rightarrow> real option" where
  "octave per lacunarity gain fx fy fz k =
     map_option (fmul (amp_at gain k))
       (noise per (fmul (fmul fx (freq_at lacunarity k)) 8)
                  (fmul (fmul fy (freq_at lacunarity k)) 8)
                  (fmul (fmul fz (freq_at lacunarity k)) 8))"

fun fbm_sum :: "Perlin3D \<Rightarrow> real \<Rightarrow> real \<Rightarrow> real \<Rightarrow> real \<Rightarrow> real \<Rightarrow> nat \<Rightarrow> real option" where
  "fbm_sum per lacunarity gain fx fy fz 0 = Some 0"
| "fbm_sum per lacunarity gain fx fy fz (Suc k) = do {
     s \<leftarrow> fbm_sum per lacunarity gain fx fy fz k;
     t \<leftarrow> octave per lacunarity gain fx fy fz k;
     Some (fadd s t)
   }"

definition quantize :: "real \<Rightarrow> int" where
  \<comment> \<open>\<open>round(255 * clamp01(S / 1.5))\<close>\<close>
  "quantize S = \<lfloor>fmul (clamp01 (fdiv S (fl (3 / 2)))) 255 + 1 / 2\<rfloor>"

section \<open>Properties of the rounding\<close>


lemma round_even_ge: "of_int n \<le> r \<Longrightarrow> n \<le> round_even r"
proof -
  assume "of_int n \<le> r"
  then have "n \<le> \<lfloor>r\<rfloor>" by (simp add: le_floor_iff)
  then show ?thesis by (simp add: round_even_def Let_def)
qed

lemma round_even_le: "r \<le> of_int n \<Longrightarrow> round_even r \<le> n"
proof -
  assume a: "r \<le> of_int n"
  show ?thesis
  proof (cases "r = of_int n")
    case True then show ?thesis by (simp add: round_even_def Let_def)
  next
    case False
    with a have "r < of_int n" by simp
    then have "\<lfloor>r\<rfloor> < n" by (simp add: floor_less_iff)
    then show ?thesis by (simp add: round_even_def Let_def)
  qed
qed

lemma round_even_mono: "r \<le> r' \<Longrightarrow> round_even r \<le> round_even r'"
proof -
  assume a: "r \<le> r'"
  have fl: "\<lfloor>r\<rfloor> \<le> \<lfloor>r'\<rfloor>" using a by (rule floor_mono)
  show ?thesis
  proof (cases "\<lfloor>r\<rfloor> = \<lfloor>r'\<rfloor>")
    case True
    with a show ?thesis by (auto simp add: round_even_def Let_def)
  next
    case False
    with fl have "\<lfloor>r\<rfloor> + 1 \<le> \<lfloor>r'\<rfloor>" by simp
    moreover have "round_even r \<le> \<lfloor>r\<rfloor> + 1" by (simp add: round_even_def Let_def)
    moreover have "\<lfloor>r'\<rfloor> \<le> round_even r'" by (simp add: round_even_def Let_def)
    ultimately show ?thesis by linarith
  qed
qed

lemma ilog2_bounds:
  assumes "0 < r"
  shows "2 powi (ilog2 r) \<le> r" and "r < 2 powi (ilog2 r + 1)"
proof -
  have "2 powi (ilog2 r) \<le> r \<and> r < 2 powi (ilog2 r + 1)"
  proof (cases "1 \<le> r")
    case True
    define n where "n = \<lfloor>r\<rfloor>"
    have n: "0 < n" using True by (simp add: n_def)
    have b: "0 < bitlen n" using n bitlen_eq_zero_iff [of n] bitlen_nonneg [of n] by linarith
    from bitlen_bounds [OF n] have lo: "2 ^ nat (bitlen n - 1) \<le> n" and hi: "n < 2 ^ nat (bitlen n)"
      by auto
    have "real_of_int (2 ^ nat (bitlen n - 1)) \<le> of_int n" using lo by (simp only: of_int_le_iff)
    then have "(2::real) ^ nat (bitlen n - 1) \<le> of_int n" by simp
    moreover have "of_int n \<le> r" by (simp add: n_def)
    ultimately have "(2::real) ^ nat (bitlen n - 1) \<le> r" by linarith
    then have 1: "2 powi (bitlen n - 1) \<le> r" using b by (simp add: power_int_def)
    have "n + 1 \<le> 2 ^ nat (bitlen n)" using hi by simp
    then have "real_of_int (n + 1) \<le> of_int (2 ^ nat (bitlen n))" by (simp only: of_int_le_iff)
    then have "real_of_int (n + 1) \<le> 2 ^ nat (bitlen n)" by simp
    moreover have "r < of_int (n + 1)" unfolding n_def by linarith
    ultimately have "r < 2 ^ nat (bitlen n)" by linarith
    then have 2: "r < 2 powi (bitlen n - 1 + 1)" using b by (simp add: power_int_def)
    from 1 2 True show ?thesis by (simp add: ilog2_def n_def)
  next
    case False
    define y where "y = 1 / r"
    define m where "m = \<lceil>y\<rceil> - 1"
    have y: "1 < y" using False assms by (simp add: y_def)
    then have "1 < \<lceil>y\<rceil>" by (simp add: less_ceiling_iff)
    then have m: "0 < m" by (simp add: m_def)
    have b: "0 < bitlen m" using m bitlen_eq_zero_iff [of m] bitlen_nonneg [of m] by linarith
    from bitlen_bounds [OF m] have lo: "2 ^ nat (bitlen m - 1) \<le> m" and hi: "m < 2 ^ nat (bitlen m)"
      by auto
    have my: "of_int m < y" unfolding m_def by linarith
    have ym: "y \<le> of_int (m + 1)" unfolding m_def by simp
    have "real_of_int (2 ^ nat (bitlen m - 1)) \<le> of_int m" using lo by (simp only: of_int_le_iff)
    then have "(2::real) ^ nat (bitlen m - 1) \<le> of_int m" by simp
    with my have "2 ^ nat (bitlen m - 1) < y" by linarith
    then have "r * 2 ^ nat (bitlen m - 1) < 1" using assms by (simp add: y_def field_simps)
    then have "r < 1 / 2 ^ nat (bitlen m - 1)" by (simp add: field_simps)
    also have "\<dots> = 2 powi (- bitlen m + 1)" using b by (simp add: power_int_def field_simps)
    finally have 2: "r < 2 powi (- bitlen m + 1)" .
    have "m + 1 \<le> 2 ^ nat (bitlen m)" using hi by simp
    then have "real_of_int (m + 1) \<le> of_int (2 ^ nat (bitlen m))" by (simp only: of_int_le_iff)
    then have "real_of_int (m + 1) \<le> 2 ^ nat (bitlen m)" by simp
    with ym have "y \<le> 2 ^ nat (bitlen m)" by linarith
    then have "1 \<le> r * 2 ^ nat (bitlen m)" using assms by (simp add: y_def field_simps)
    then have "1 / 2 ^ nat (bitlen m) \<le> r" by (simp add: field_simps)
    moreover have "1 / 2 ^ nat (bitlen m) = (2::real) powi (- bitlen m)" using b by (simp add: power_int_def field_simps)
    ultimately have 1: "2 powi (- bitlen m) \<le> r" by simp
    from 1 2 False show ?thesis by (simp add: ilog2_def m_def y_def)
  qed
  then show "2 powi (ilog2 r) \<le> r" and "r < 2 powi (ilog2 r + 1)" by auto
qed


lemma ulp_exp_lower: "- 149 \<le> ulp_exp r"
  by (simp add: ulp_exp_def)

lemma ulp_exp_upper: "0 < r \<Longrightarrow> r < 2 powi (ulp_exp r + 24)"
proof -
  assume r: "0 < r"
  have "ilog2 r + 1 \<le> ulp_exp r + 24" by (simp add: ulp_exp_def)
  then have "(2::real) powi (ilog2 r + 1) \<le> 2 powi (ulp_exp r + 24)"
    by (intro power_int_increasing) simp_all
  with ilog2_bounds(2) [OF r] show ?thesis by linarith
qed

lemma ulp_exp_normal: "0 < r \<Longrightarrow> - 149 < ulp_exp r \<Longrightarrow> 2 powi (ulp_exp r + 23) \<le> r"
proof -
  assume r: "0 < r" and "- 149 < ulp_exp r"
  then have "ulp_exp r + 23 = ilog2 r" by (simp add: ulp_exp_def max_def split: if_splits)
  with ilog2_bounds(1) [OF r] show ?thesis by simp
qed

lemma fl_pos: "0 < x \<Longrightarrow> fl x = flpos x"
  by (simp add: fl_def)

lemma fl_neg: "x < 0 \<Longrightarrow> fl x = - flpos (- x)"
  by (simp add: fl_def)

lemma flpos_le_grid:
  assumes "r \<le> of_int m * 2 powi ulp_exp r"
  shows "flpos r \<le> of_int m * 2 powi ulp_exp r"
proof -
  have pos: "(0::real) < 2 powi ulp_exp r" by simp
  from assms have "r / 2 powi ulp_exp r \<le> of_int m" by (simp add: pos_divide_le_eq)
  then have "round_even (r / 2 powi ulp_exp r) \<le> m" by (rule round_even_le)
  then have "real_of_int (round_even (r / 2 powi ulp_exp r)) \<le> of_int m" by simp
  then show ?thesis unfolding flpos_def using pos by (simp only: mult_le_cancel_right_pos)
qed

lemma flpos_ge_grid:
  assumes "of_int m * 2 powi ulp_exp r \<le> r"
  shows "of_int m * 2 powi ulp_exp r \<le> flpos r"
proof -
  have pos: "(0::real) < 2 powi ulp_exp r" by simp
  from assms have "of_int m \<le> r / 2 powi ulp_exp r" by (simp add: pos_le_divide_eq)
  then have "m \<le> round_even (r / 2 powi ulp_exp r)" by (rule round_even_ge)
  then have "real_of_int m \<le> of_int (round_even (r / 2 powi ulp_exp r))" by simp
  then show ?thesis unfolding flpos_def using pos by (simp only: mult_le_cancel_right_pos)
qed

lemma flpos_nonneg: "0 \<le> r \<Longrightarrow> 0 \<le> flpos r"
  using flpos_ge_grid [of 0 r] by simp

lemma pow2_grid: "e \<le> k \<Longrightarrow> (2::real) powi k = of_int (2 ^ nat (k - e)) * 2 powi e"
proof -
  assume "e \<le> k"
  then have "(2::real) powi k = 2 powi (int (nat (k - e)) + e)" by simp
  also have "\<dots> = 2 powi int (nat (k - e)) * 2 powi e" by (simp add: power_int_add)
  also have "(2::real) powi int (nat (k - e)) = of_int (2 ^ nat (k - e))"
    by (simp only: power_int_of_nat of_int_power of_int_numeral)
  finally show ?thesis .
qed

lemma flpos_mono:
  assumes "0 < x" and "x \<le> y"
  shows "flpos x \<le> flpos y"
proof -
  have y: "0 < y" using assms by linarith
  consider "ulp_exp x = ulp_exp y" | "ulp_exp x < ulp_exp y" | "ulp_exp y < ulp_exp x"
    by linarith
  then show ?thesis
  proof cases
    case 1
    have "x / 2 powi ulp_exp y \<le> y / 2 powi ulp_exp y"
      using assms by (simp add: divide_right_mono)
    then have "round_even (x / 2 powi ulp_exp y) \<le> round_even (y / 2 powi ulp_exp y)"
      by (rule round_even_mono)
    then have "real_of_int (round_even (x / 2 powi ulp_exp y)) \<le> of_int (round_even (y / 2 powi ulp_exp y))"
      by simp
    then show ?thesis unfolding flpos_def 1 by (simp only: mult_le_cancel_right_pos zero_less_power_int zero_less_numeral)
  next
    case 2
    define B :: real where "B = 2 powi (ulp_exp y + 23)"
    have "- 149 < ulp_exp y" using 2 ulp_exp_lower [of x] by linarith
    then have By: "B \<le> y" unfolding B_def using y by (rule ulp_exp_normal [rotated])
    have "(2::real) powi (ulp_exp x + 24) \<le> 2 powi (ulp_exp y + 23)"
      using 2 by (intro power_int_increasing) simp_all
    with ulp_exp_upper [OF assms(1)] have xB: "x \<le> B" unfolding B_def by linarith
    have gx: "B = of_int (2 ^ nat (ulp_exp y + 23 - ulp_exp x)) * 2 powi ulp_exp x"
      unfolding B_def using 2 by (intro pow2_grid) simp
    have gy: "B = of_int (2 ^ nat (ulp_exp y + 23 - ulp_exp y)) * 2 powi ulp_exp y"
      unfolding B_def by (intro pow2_grid) simp
    have "flpos x \<le> B" using flpos_le_grid [of x "2 ^ nat (ulp_exp y + 23 - ulp_exp x)"] xB gx by simp
    moreover have "B \<le> flpos y" using flpos_ge_grid [of "2 ^ nat (ulp_exp y + 23 - ulp_exp y)" y] By gy by simp
    ultimately show ?thesis by linarith
  next
    case 3
    have "- 149 < ulp_exp x" using 3 ulp_exp_lower [of y] by linarith
    then have "2 powi (ulp_exp x + 23) \<le> x" using assms(1) by (rule ulp_exp_normal [rotated])
    moreover have "(2::real) powi (ulp_exp y + 24) \<le> 2 powi (ulp_exp x + 23)"
      using 3 by (intro power_int_increasing) simp_all
    ultimately have False using ulp_exp_upper [OF y] assms(2) by linarith
    then show ?thesis ..
  qed
qed

lemma fl_zero: "fl 0 = 0"
  by (simp add: fl_def)

lemma fl_mono: "x \<le> y \<Longrightarrow> fl x \<le> fl y"
proof -
  assume xy: "x \<le> y"
  consider "0 < x" | "x = 0" | "x < 0" "y < 0" | "x < 0" "y = 0" | "x < 0" "0 < y" by linarith
  then show ?thesis
  proof cases
    case 1
    then have "0 < y" using xy by linarith
    with 1 xy show ?thesis by (simp add: fl_pos flpos_mono)
  next
    case 2
    show ?thesis
    proof (cases "y = 0")
      case True with 2 show ?thesis by simp
    next
      case False
      with 2 xy have "0 < y" by linarith
      then show ?thesis using 2 by (simp add: fl_pos fl_zero flpos_nonneg)
    qed
  next
    case 3
    then have "flpos (- y) \<le> flpos (- x)" using xy by (intro flpos_mono) simp_all
    with 3 show ?thesis by (simp add: fl_neg)
  next
    case 4
    then show ?thesis using flpos_nonneg [of "- x"] by (simp add: fl_neg fl_zero)
  next
    case 5
    then show ?thesis using flpos_nonneg [of "- x"] flpos_nonneg [of y] by (simp add: fl_neg fl_pos)
  qed
qed



section \<open>The permutation table\<close>


lemma fold_upd_map:
  "n \<le> length xs \<Longrightarrow> fold (\<lambda>i a. a[i := f i]) [0..<n] xs = map f [0..<n] @ drop n xs"
proof (induction n)
  case 0
  then show ?case by simp
next
  case (Suc n)
  then have n: "n < length xs" by simp
  have "fold (\<lambda>i a. a[i := f i]) [0..<Suc n] xs = (map f [0..<n] @ drop n xs)[n := f n]"
    using Suc by simp
  also have "\<dots> = map f [0..<n] @ (drop n xs)[0 := f n]"
    by (simp add: list_update_append)
  also have "(drop n xs)[0 := f n] = f n # drop (Suc n) xs"
    using n by (simp add: Cons_nth_drop_Suc [symmetric])
  finally show ?case by simp
qed

lemma and_255: "(k::int) AND 255 = k mod 256"
proof -
  have "(255::int) = mask 8" by (simp add: mask_eq_exp_minus_1)
  then show ?thesis by (simp only: flip: take_bit_eq_mask) (simp add: take_bit_eq_mod)
qed

lemma and_255_bounds: "0 \<le> (k::int) AND 255" "(k::int) AND 255 \<le> 255"
  by (simp_all add: and_255)

lemma shuffle_index: "k < 2 ^ 31 \<Longrightarrow> unat (s mod (of_nat (Suc k + 1) :: u32)) \<le> Suc k"
proof -
  assume k: "k < 2 ^ 31"
  have "unat (of_nat (Suc k + 1) :: u32) = (Suc k + 1) mod 2 ^ LENGTH(32)"
    by (rule unat_of_nat)
  also have "\<dots> = Suc k + 1" using k by simp
  finally have "unat (of_nat (Suc k + 1) :: u32) = Suc k + 1" .
  then have "unat (s mod (of_nat (Suc k + 1) :: u32)) = unat s mod (Suc k + 1)"
    by (simp add: unat_mod)
  also have "\<dots> < Suc k + 1" by (intro mod_less_divisor) simp
  finally show ?thesis by simp
qed

lemma swap_props: "i < length xs \<Longrightarrow> j < length xs \<Longrightarrow> length (swap xs i j) = length xs \<and> set (swap xs i j) = set xs"
  by (simp add: swap_def set_swap)

lemma shuffle_props:
  "k < length perm \<Longrightarrow> k < 2 ^ 31 \<Longrightarrow> length (shuffle k s perm) = length perm \<and> set (shuffle k s perm) = set perm"
proof (induction k arbitrary: s perm)
  case 0
  then show ?case by simp
next
  case (Suc k)
  have j: "unat (lcg s mod (of_nat (Suc k + 1) :: u32)) \<le> Suc k"
    using Suc.prems by (intro shuffle_index) simp
  then have sw: "length (swap perm (Suc k) (unat (lcg s mod (of_nat (Suc k + 1) :: u32)))) = length perm
      \<and> set (swap perm (Suc k) (unat (lcg s mod (of_nat (Suc k + 1) :: u32)))) = set perm"
    using Suc.prems by (intro swap_props) simp_all
  have "length (shuffle k (lcg s) (swap perm (Suc k) (unat (lcg s mod (of_nat (Suc k + 1) :: u32))))) =
        length (swap perm (Suc k) (unat (lcg s mod (of_nat (Suc k + 1) :: u32)))) \<and>
        set (shuffle k (lcg s) (swap perm (Suc k) (unat (lcg s mod (of_nat (Suc k + 1) :: u32))))) =
        set (swap perm (Suc k) (unat (lcg s mod (of_nat (Suc k + 1) :: u32))))"
    using Suc.prems sw by (intro Suc.IH) simp_all
  with sw show ?case by (simp add: Let_def)
qed

lemma shuffled_props: "length (shuffled seed) = 256" "set (shuffled seed) = int ` {0..<256}"
  using shuffle_props [of 255 "map int [0..<256]" seed] by (simp_all add: shuffled_def)

lemma table_eq: "p (Perlin3D_new seed junk) = map (\<lambda>i. shuffled seed ! (i mod 256)) [0..<512]"
proof -
  have 1: "fold (\<lambda>i perm. perm[i := int i]) [0..<256] (replicate 256 0) = map int [0..<256]"
    using fold_upd_map [of 256 "replicate 256 0" int] by simp
  have 2: "fold (\<lambda>i pp. pp[i := f i]) [0..<512] (map junk [0..<512]) = map f [0..<512]" for f :: "nat \<Rightarrow> int"
    using fold_upd_map [of 512 "map junk [0..<512]" f] by simp
  have 3: "nat (int i AND 255) = i mod 256" for i
    by (simp add: and_255 nat_mod_distrib)
  show ?thesis
    unfolding Perlin3D_new_def Let_def 1 2 3 shuffled_def by simp
qed

lemma table_length: "length (p (Perlin3D_new seed junk)) = 512"
  by (simp add: table_eq)

lemma table_nth: "i < 512 \<Longrightarrow> p (Perlin3D_new seed junk) ! i = shuffled seed ! (i mod 256)"
  by (simp add: table_eq)

lemma table_range:
  assumes "i < 512"
  shows "0 \<le> p (Perlin3D_new seed junk) ! i \<and> p (Perlin3D_new seed junk) ! i \<le> 255"
proof -
  have "shuffled seed ! (i mod 256) \<in> set (shuffled seed)"
    by (intro nth_mem) (simp add: shuffled_props)
  then obtain k where "k < 256" "shuffled seed ! (i mod 256) = int k"
    by (auto simp add: shuffled_props)
  with assms show ?thesis by (simp add: table_nth)
qed

lemma table_rd:
  assumes "0 \<le> i" "i \<le> 511"
  shows "\<exists>v. rd (p (Perlin3D_new seed junk)) i = Some v \<and> 0 \<le> v \<and> v \<le> 255"
proof -
  have "nat i < 512" using assms by simp
  from table_range [OF this] show ?thesis using assms by (simp add: rd_def table_length)
qed


section \<open>Reads of the table in noise\<close>


lemma noise_reads:
  assumes cx: "to_int (floorf x) = Some X0"
    and cy: "to_int (floorf y) = Some Y0"
    and cz: "to_int (floorf z) = Some Z0"
  shows "\<exists>hAA hBA hAB hBB hAA1 hBA1 hAB1 hBB1.
     noise (Perlin3D_new seed junk) x y z =
       Some (noise_value hAA hBA hAB hBB hAA1 hBA1 hAB1 hBB1
               (fsub x (floorf x)) (fsub y (floorf y)) (fsub z (floorf z)))"
proof -
  let ?T = "p (Perlin3D_new seed junk)"
  define X Y Z where "X = X0 AND 255" and "Y = Y0 AND 255" and "Z = Z0 AND 255"
  have X: "0 \<le> X" "X \<le> 255" and Y: "0 \<le> Y" "Y \<le> 255" and Z: "0 \<le> Z" "Z \<le> 255"
    by (simp_all add: X_def Y_def Z_def and_255_bounds)
  obtain pX where pX: "rd ?T X = Some pX" "0 \<le> pX" "pX \<le> 255"
    using table_rd [of X seed junk] X by auto
  obtain pA where pA: "rd ?T (pX + Y) = Some pA" "0 \<le> pA" "pA \<le> 255"
    using table_rd [of "pX + Y" seed junk] pX Y by auto
  obtain pA1 where pA1: "rd ?T (pX + Y + 1) = Some pA1" "0 \<le> pA1" "pA1 \<le> 255"
    using table_rd [of "pX + Y + 1" seed junk] pX Y by auto
  obtain pX1 where pX1: "rd ?T (X + 1) = Some pX1" "0 \<le> pX1" "pX1 \<le> 255"
    using table_rd [of "X + 1" seed junk] X by auto
  obtain pB where pB: "rd ?T (pX1 + Y) = Some pB" "0 \<le> pB" "pB \<le> 255"
    using table_rd [of "pX1 + Y" seed junk] pX1 Y by auto
  obtain pB1 where pB1: "rd ?T (pX1 + Y + 1) = Some pB1" "0 \<le> pB1" "pB1 \<le> 255"
    using table_rd [of "pX1 + Y + 1" seed junk] pX1 Y by auto
  obtain hAA where hAA: "rd ?T (pA + Z) = Some hAA"
    using table_rd [of "pA + Z" seed junk] pA Z by auto
  obtain hBA where hBA: "rd ?T (pB + Z) = Some hBA"
    using table_rd [of "pB + Z" seed junk] pB Z by auto
  obtain hAB where hAB: "rd ?T (pA1 + Z) = Some hAB"
    using table_rd [of "pA1 + Z" seed junk] pA1 Z by auto
  obtain hBB where hBB: "rd ?T (pB1 + Z) = Some hBB"
    using table_rd [of "pB1 + Z" seed junk] pB1 Z by auto
  obtain hAA1 where hAA1: "rd ?T (pA + Z + 1) = Some hAA1"
    using table_rd [of "pA + Z + 1" seed junk] pA Z by auto
  obtain hBA1 where hBA1: "rd ?T (pB + Z + 1) = Some hBA1"
    using table_rd [of "pB + Z + 1" seed junk] pB Z by auto
  obtain hAB1 where hAB1: "rd ?T (pA1 + Z + 1) = Some hAB1"
    using table_rd [of "pA1 + Z + 1" seed junk] pA1 Z by auto
  obtain hBB1 where hBB1: "rd ?T (pB1 + Z + 1) = Some hBB1"
    using table_rd [of "pB1 + Z + 1" seed junk] pB1 Z by auto
  have "noise (Perlin3D_new seed junk) x y z =
       Some (noise_value hAA hBA hAB hBB hAA1 hBA1 hAB1 hBB1
               (fsub x (floorf x)) (fsub y (floorf y)) (fsub z (floorf z)))"
    unfolding noise_def cx cy cz Let_def
    using pX(1) pA(1) pA1(1) pX1(1) pB(1) pB1(1) hAA hBA hAB hBB hAA1 hBA1 hAB1 hBB1
    by (simp add: X_def Y_def Z_def)
  then show ?thesis by blast
qed



section \<open>Indexing safety\<close>


lemma table_range_int:
  assumes "0 \<le> k" "k \<le> 511"
  shows "0 \<le> p (Perlin3D_new seed junk) ! nat k" "p (Perlin3D_new seed junk) ! nat k \<le> 255"
  using table_range [of "nat k" seed junk] assms by simp_all

lemma table_period: "i < 256 \<Longrightarrow> p (Perlin3D_new seed junk) ! i = p (Perlin3D_new seed junk) ! (i + 256)"
  by (simp add: table_nth)

lemma noise_indices_range:
  assumes "i \<in> set (noise_indices (Perlin3D_new seed junk) X0 Y0 Z0)"
  shows "0 \<le> i \<and> i \<le> 511"
proof -
  let ?T = "p (Perlin3D_new seed junk)"
  define X Y Z where "X = X0 AND 255" and "Y = Y0 AND 255" and "Z = Z0 AND 255"
  define A where "A = ?T ! nat X + Y"
  define B where "B = ?T ! nat (X + 1) + Y"
  define AA where "AA = ?T ! nat A + Z"
  define AB where "AB = ?T ! nat (A + 1) + Z"
  define BA where "BA = ?T ! nat B + Z"
  define BB where "BB = ?T ! nat (B + 1) + Z"
  have X: "0 \<le> X" "X \<le> 255" and Y: "0 \<le> Y" "Y \<le> 255" and Z: "0 \<le> Z" "Z \<le> 255"
    by (simp_all add: X_def Y_def Z_def and_255_bounds)
  have A: "0 \<le> A" "A \<le> 510"
    using table_range_int [of X seed junk] X Y by (simp_all add: A_def)
  have B: "0 \<le> B" "B \<le> 510"
    using table_range_int [of "X + 1" seed junk] X Y by (simp_all add: B_def)
  have AA: "0 \<le> AA" "AA \<le> 510"
    using table_range_int [of A seed junk] A Z by (simp_all add: AA_def)
  have AB: "0 \<le> AB" "AB \<le> 510"
    using table_range_int [of "A + 1" seed junk] A Z by (simp_all add: AB_def)
  have BA: "0 \<le> BA" "BA \<le> 510"
    using table_range_int [of B seed junk] B Z by (simp_all add: BA_def)
  have BB: "0 \<le> BB" "BB \<le> 510"
    using table_range_int [of "B + 1" seed junk] B Z by (simp_all add: BB_def)
  have "noise_indices (Perlin3D_new seed junk) X0 Y0 Z0 =
      [X, X + 1, A, A + 1, B, B + 1, AA, AA + 1, AB, AB + 1, BA, BA + 1, BB, BB + 1]"
    by (simp add: noise_indices_def Let_def X_def Y_def Z_def A_def B_def AA_def AB_def BA_def BB_def)
  with assms have "i \<in> {X, X + 1, A, A + 1, B, B + 1, AA, AA + 1, AB, AB + 1, BA, BA + 1, BB, BB + 1}"
    by simp
  with X A B AA AB BA BB show ?thesis by auto
qed

lemma noise_defined:
  assumes "to_int (floorf x) \<noteq> None" "to_int (floorf y) \<noteq> None" "to_int (floorf z) \<noteq> None"
  shows "noise (Perlin3D_new seed junk) x y z \<noteq> None"
proof -
  from assms obtain X0 Y0 Z0 where
    "to_int (floorf x) = Some X0" "to_int (floorf y) = Some Y0" "to_int (floorf z) = Some Z0"
    by auto
  from noise_reads [OF this, of seed junk] show ?thesis by auto
qed

text \<open>
  C10.  For every seed (and whatever the array held before the constructor ran) the table
  has 512 entries, all in \<open>0..255\<close>, the upper half repeats the lower half, every subscript
  that \<open>noise\<close> computes lies in \<open>0..511\<close>, and so \<open>noise\<close> reads nothing out of bounds:
  it is defined whenever its three casts are.
\<close>

theorem table_index_safety:
  "length (p (Perlin3D_new seed junk)) = 512 \<and>
   (\<forall>i<512. 0 \<le> p (Perlin3D_new seed junk) ! i \<and> p (Perlin3D_new seed junk) ! i \<le> 255) \<and>
   (\<forall>i<256. p (Perlin3D_new seed junk) ! i = p (Perlin3D_new seed junk) ! (i + 256)) \<and>
   (\<forall>X0 Y0 Z0. \<forall>i \<in> set (noise_indices (Perlin3D_new seed junk) X0 Y0 Z0). 0 \<le> i \<and> i \<le> 511) \<and>
   (\<forall>x y z. to_int (floorf x) \<noteq> None \<and> to_int (floorf y) \<noteq> None \<and> to_int (floorf z) \<noteq> None
      \<longrightarrow> noise (Perlin3D_new seed junk) x y z \<noteq> None)"
proof (intro conjI allI impI ballI)
  show "length (p (Perlin3D_new seed junk)) = 512" by (rule table_length)
next
  fix i :: nat assume "i < 512"
  then show "0 \<le> p (Perlin3D_new seed junk) ! i" "p (Perlin3D_new seed junk) ! i \<le> 255"
    using table_range [of i seed junk] by simp_all
next
  fix i :: nat assume "i < 256"
  then show "p (Perlin3D_new seed junk) ! i = p (Perlin3D_new seed junk) ! (i + 256)"
    by (rule table_period)
next
  fix X0 Y0 Z0 i assume "i \<in> set (noise_indices (Perlin3D_new seed junk) X0 Y0 Z0)"
  then show "0 \<le> i" "i \<le> 511" using noise_indices_range by blast+
next
  fix x y z :: real
  assume "to_int (floorf x) \<noteq> None \<and> to_int (floorf y) \<noteq> None \<and> to_int (floorf z) \<noteq> None"
  then show "noise (Perlin3D_new seed junk) x y z \<noteq> None" by (simp add: noise_defined)
qed

theorem table_index_safety_witness:
  "(7::nat) < 512 \<and> 0 \<le> p (Perlin3D_new 42 (\<lambda>_. 0)) ! 7 \<and> p (Perlin3D_new 42 (\<lambda>_. 0)) ! 7 \<le> 255 \<and>
   (7::nat) < 256 \<and> p (Perlin3D_new 42 (\<lambda>_. 0)) ! 7 = p (Perlin3D_new 42 (\<lambda>_. 0)) ! (7 + 256) \<and>
   p (Perlin3D_new 42 (\<lambda>_. 0)) ! 41 + 211 \<in> set (noise_indices (Perlin3D_new 42 (\<lambda>_. 0)) 41 211 86) \<and>
   0 \<le> p (Perlin3D_new 42 (\<lambda>_. 0)) ! 41 + 211 \<and> p (Perlin3D_new 42 (\<lambda>_. 0)) ! 41 + 211 \<le> 511 \<and>
   to_int (floorf (83 / 2)) \<noteq> None \<and> to_int (floorf (845 / 4)) \<noteq> None \<and> to_int (floorf (173 / 2)) \<noteq> None \<and>
   noise (Perlin3D_new 42 (\<lambda>_. 0)) (83 / 2) (845 / 4) (173 / 2) \<noteq> None"
proof -
  have c: "to_int (floorf (83 / 2)) \<noteq> None \<and> to_int (floorf (845 / 4)) \<noteq> None \<and> to_int (floorf (173 / 2)) \<noteq> None"
    by (simp add: to_int_def floorf_def)
  have m: "p (Perlin3D_new 42 (\<lambda>_. 0)) ! 41 + 211 \<in> set (noise_indices (Perlin3D_new 42 (\<lambda>_. 0)) 41 211 86)"
    by (simp add: noise_indices_def Let_def and_255)
  show ?thesis using table_index_safety [of 42 "\<lambda>_. 0"] c m by simp
qed



section \<open>Lattice points\<close>


lemma fl_one: "fl 1 = 1"
  by code_simp

lemma fl_half: "fl (1 / 2) = 1 / 2"
  by code_simp

lemma fade_zero: "fade 0 = 0"
  by (simp add: fade_def fmul_def fl_zero)

lemma grad_zero: "grad h 0 0 0 = 0"
  by (simp add: grad_def Let_def fadd_def fl_zero)

lemma lerp_zero: "lerp 0 b 0 = 0"
  by (simp add: lerp_def fadd_def fmul_def fl_zero)

lemma noise_value_lattice: "noise_value hAA hBA hAB hBB hAA1 hBA1 hAB1 hBB1 0 0 0 = 1 / 2"
  by (simp add: noise_value_def Let_def fade_zero grad_zero lerp_zero fadd_def fmul_def fl_one fl_half)

lemma to_int_floorf_eq:
  "to_int (floorf x) = (if - (2 ^ 31) \<le> \<lfloor>x\<rfloor> \<and> \<lfloor>x\<rfloor> < 2 ^ 31 then Some \<lfloor>x\<rfloor> else None)"
  by (simp add: to_int_def floorf_def Let_def)

lemma to_int_floorf: "- (2 ^ 31) \<le> \<lfloor>x\<rfloor> \<Longrightarrow> \<lfloor>x\<rfloor> < 2 ^ 31 \<Longrightarrow> to_int (floorf x) = Some \<lfloor>x\<rfloor>"
  by (simp add: to_int_floorf_eq)

lemma noise_cvt_noise:
  assumes "to_int (floorf x) = Some X0" "to_int (floorf y) = Some Y0" "to_int (floorf z) = Some Z0"
  shows "noise_cvt cvt P x y z = noise P x y z"
  unfolding noise_cvt_def noise_def to_int_cvt_def assms by simp

lemma noise_cvt_refines: "noise P x y z = Some r \<Longrightarrow> noise_cvt cvt P x y z = Some r"
proof -
  assume a: "noise P x y z = Some r"
  obtain X0 where x: "to_int (floorf x) = Some X0"
    using a by (cases "to_int (floorf x)") (simp_all add: noise_def)
  obtain Y0 where y: "to_int (floorf y) = Some Y0"
    using a x by (cases "to_int (floorf y)") (simp_all add: noise_def)
  obtain Z0 where z: "to_int (floorf z) = Some Z0"
    using a x y by (cases "to_int (floorf z)") (simp_all add: noise_def)
  from noise_cvt_noise [OF x y z] a show ?thesis by simp
qed

lemma noise_cvt_reads:
  "\<exists>hAA hBA hAB hBB hAA1 hBA1 hAB1 hBB1.
     noise_cvt cvt (Perlin3D_new seed junk) x y z =
       Some (noise_value hAA hBA hAB hBB hAA1 hBA1 hAB1 hBB1
               (fsub x (floorf x)) (fsub y (floorf y)) (fsub z (floorf z)))"
proof -
  let ?T = "p (Perlin3D_new seed junk)"
  define X Y Z where "X = to_int_cvt cvt (floorf x) AND 255" and "Y = to_int_cvt cvt (floorf y) AND 255"
    and "Z = to_int_cvt cvt (floorf z) AND 255"
  have X: "0 \<le> X" "X \<le> 255" and Y: "0 \<le> Y" "Y \<le> 255" and Z: "0 \<le> Z" "Z \<le> 255"
    by (simp_all add: X_def Y_def Z_def and_255_bounds)
  obtain pX where pX: "rd ?T X = Some pX" "0 \<le> pX" "pX \<le> 255"
    using table_rd [of X seed junk] X by auto
  obtain pA where pA: "rd ?T (pX + Y) = Some pA" "0 \<le> pA" "pA \<le> 255"
    using table_rd [of "pX + Y" seed junk] pX Y by auto
  obtain pA1 where pA1: "rd ?T (pX + Y + 1) = Some pA1" "0 \<le> pA1" "pA1 \<le> 255"
    using table_rd [of "pX + Y + 1" seed junk] pX Y by auto
  obtain pX1 where pX1: "rd ?T (X + 1) = Some pX1" "0 \<le> pX1" "pX1 \<le> 255"
    using table_rd [of "X + 1" seed junk] X by auto
  obtain pB where pB: "rd ?T (pX1 + Y) = Some pB" "0 \<le> pB" "pB \<le> 255"
    using table_rd [of "pX1 + Y" seed junk] pX1 Y by auto
  obtain pB1 where pB1: "rd ?T (pX1 + Y + 1) = Some pB1" "0 \<le> pB1" "pB1 \<le> 255"
    using table_rd [of "pX1 + Y + 1" seed junk] pX1 Y by auto
  obtain hAA where hAA: "rd ?T (pA + Z) = Some hAA"
    using table_rd [of "pA + Z" seed junk] pA Z by auto
  obtain hBA where hBA: "rd ?T (pB + Z) = Some hBA"
    using table_rd [of "pB + Z" seed junk] pB Z by auto
  obtain hAB where hAB: "rd ?T (pA1 + Z) = Some hAB"
    using table_rd [of "pA1 + Z" seed junk] pA1 Z by auto
  obtain hBB where hBB: "rd ?T (pB1 + Z) = Some hBB"
    using table_rd [of "pB1 + Z" seed junk] pB1 Z by auto
  obtain hAA1 where hAA1: "rd ?T (pA + Z + 1) = Some hAA1"
    using table_rd [of "pA + Z + 1" seed junk] pA Z by auto
  obtain hBA1 where hBA1: "rd ?T (pB + Z + 1) = Some hBA1"
    using table_rd [of "pB + Z + 1" seed junk] pB Z by auto
  obtain hAB1 where hAB1: "rd ?T (pA1 + Z + 1) = Some hAB1"
    using table_rd [of "pA1 + Z + 1" seed junk] pA1 Z by auto
  obtain hBB1 where hBB1: "rd ?T (pB1 + Z + 1) = Some hBB1"
    using table_rd [of "pB1 + Z + 1" seed junk] pB1 Z by auto
  have "noise_cvt cvt (Perlin3D_new seed junk) x y z =
       Some (noise_value hAA hBA hAB hBB hAA1 hBA1 hAB1 hBB1
               (fsub x (floorf x)) (fsub y (floorf y)) (fsub z (floorf z)))"
    unfolding noise_cvt_def Let_def
    using pX(1) pA(1) pA1(1) pX1(1) pB(1) pB1(1) hAA hBA hAB hBB hAA1 hBA1 hAB1 hBB1
    by (simp add: X_def Y_def Z_def)
  then show ?thesis by blast
qed

lemma fsub_lattice: "fsub (of_int k) (floorf (of_int k)) = 0"
  by (simp add: fsub_def floorf_def fl_zero)

text \<open>
  C3.  For every seed and all integer coordinates \<open>noise\<close> returns exactly \<open>1/2\<close>: the
  offsets within the cell are zero, so the gradient at the cell's own corner contributes
  0, the other seven corners have interpolation weight \<open>fade 0 = 0\<close>, and 0 is rescaled
  to \<open>1/2\<close>.  The hashes play no part in this, so the value is \<open>1/2\<close> whatever \<^verbatim>\<open>int\<close> the
  casts deliver, also for a coordinate such as \<open>2\<^sup>3\<^sup>1\<close> that is a \<^verbatim>\<open>float\<close> but not an
  \<^verbatim>\<open>int\<close>; and where C++ defines the casts, the value is \<open>1/2\<close> as well.
\<close>

theorem noise_lattice:
  "noise_cvt cvt (Perlin3D_new seed junk) (of_int X) (of_int Y) (of_int Z) = Some (1 / 2) \<and>
   noise (Perlin3D_new seed junk) (of_int X) (of_int Y) (of_int Z) \<in> {Some (1 / 2), None}"
proof
  from noise_cvt_reads [of cvt seed junk "of_int X" "of_int Y" "of_int Z"]
  show c: "noise_cvt cvt (Perlin3D_new seed junk) (of_int X) (of_int Y) (of_int Z) = Some (1 / 2)"
    by (auto simp add: fsub_lattice noise_value_lattice)
  show "noise (Perlin3D_new seed junk) (of_int X) (of_int Y) (of_int Z) \<in> {Some (1 / 2), None}"
  proof (cases "noise (Perlin3D_new seed junk) (of_int X) (of_int Y) (of_int Z)")
    case None then show ?thesis by simp
  next
    case (Some r)
    from noise_cvt_refines [OF Some, of cvt] c show ?thesis using Some by simp
  qed
qed



section \<open>Values outside the unit interval\<close>


lemma table_record:
  "Perlin3D_new seed junk = \<lparr>p = map (\<lambda>i. shuffled seed ! (i mod 256)) [0..<512]\<rparr>"
  using table_eq [of seed junk] by (simp add: Perlin3D_new_def Let_def)

lemma shuffled_42: "map (\<lambda>i. shuffled 42 ! (i mod 256)) [0..<512] = perm42 @ perm42"
  by code_simp

lemma table_42: "Perlin3D_new 42 junk = \<lparr>p = perm42 @ perm42\<rparr>"
  by (simp only: table_record shuffled_42)

lemma noise_42_eval: "noise \<lparr>p = perm42 @ perm42\<rparr> (83 / 2) (845 / 4) (173 / 2) = Some (4149 / 4096)"
  by code_simp

lemma noise_42_eval_low: "noise \<lparr>p = perm42 @ perm42\<rparr> (397 / 2) (661 / 4) (343 / 2) = Some (- 53 / 4096)"
  by code_simp

text \<open>
  C2.  With the seed of the shipped bake, 42, \<open>noise\<close> at \<open>(41.5, 211.25, 86.5)\<close> is
  \<open>4149/4096\<close>, above 1, and at \<open>(198.5, 165.25, 171.5)\<close> it is \<open>-53/4096\<close>, below 0.
  Every operation on the way is exact in binary32.
\<close>

theorem noise_out_of_range:
  "noise (Perlin3D_new 42 junk) (83 / 2) (845 / 4) (173 / 2) = Some (4149 / 4096) \<and> (1::real) < 4149 / 4096 \<and>
   noise (Perlin3D_new 42 junk) (397 / 2) (661 / 4) (343 / 2) = Some (- 53 / 4096) \<and> (- 53 / 4096 :: real) < 0"
  by (simp add: table_42 noise_42_eval noise_42_eval_low)

section \<open>Periodicity\<close>





















section \<open>Smoke density\<close>


lemma glsl_clamp_range: "lo \<le> hi \<Longrightarrow> lo \<le> glsl_clamp x lo hi \<and> glsl_clamp x lo hi \<le> hi"
  by (simp add: glsl_clamp_def)

lemma glsl_clamp_mono: "x \<le> y \<Longrightarrow> glsl_clamp x lo hi \<le> glsl_clamp y lo hi"
  by (auto simp add: glsl_clamp_def min_def max_def)

lemma cubic_mono:
  fixes s t :: real
  assumes "0 \<le> s" "s \<le> t" "t \<le> 1"
  shows "s * s * (3 - 2 * s) \<le> t * t * (3 - 2 * t)"
proof -
  have "t * t * (3 - 2 * t) - s * s * (3 - 2 * s) =
        (t - s) * ((t - t * t) + (s - s * s) + (t + s - 2 * t * s) + (t - t * t) + (s - s * s))"
    by (simp add: algebra_simps)
  moreover have "0 \<le> t - t * t"
    using assms mult_left_le [of t t] by simp
  moreover have "0 \<le> s - s * s"
    using assms mult_left_le [of s s] by simp
  moreover have "0 \<le> t + s - 2 * t * s"
  proof -
    have "t * s \<le> s" using assms mult_left_le_one_le [of s t] by simp
    moreover have "t * s \<le> t" using assms mult_right_le_one_le [of t s] by simp
    ultimately show ?thesis by simp
  qed
  moreover have "0 \<le> t - s" using assms by simp
  ultimately have "0 \<le> t * t * (3 - 2 * t) - s * s * (3 - 2 * s)"
    by (simp add: mult_nonneg_nonneg)
  then show ?thesis by simp
qed

lemma smoothstep01_mono: "v \<le> v' \<Longrightarrow> smoothstep 0 1 v \<le> smoothstep 0 1 v'"
proof -
  assume "v \<le> v'"
  then have "glsl_clamp v 0 1 \<le> glsl_clamp v' 0 1" by (rule glsl_clamp_mono)
  moreover have "0 \<le> glsl_clamp v 0 1" "glsl_clamp v' 0 1 \<le> 1"
    using glsl_clamp_range [of 0 1] by simp_all
  ultimately show ?thesis
    unfolding smoothstep_def Let_def by (simp add: cubic_mono)
qed

lemma smoothstep01_range: "0 \<le> smoothstep 0 1 v \<and> smoothstep 0 1 v \<le> 1"
proof -
  have lo: "smoothstep 0 1 0 = 0" and hi: "smoothstep 0 1 1 = 1"
    by (simp_all add: smoothstep_def glsl_clamp_def)
  have c: "smoothstep 0 1 v = smoothstep 0 1 (glsl_clamp v 0 1)"
    by (simp add: smoothstep_def glsl_clamp_def)
  have "0 \<le> glsl_clamp v 0 1" "glsl_clamp v 0 1 \<le> 1"
    using glsl_clamp_range [of 0 1 v] by simp_all
  then have "smoothstep 0 1 0 \<le> smoothstep 0 1 (glsl_clamp v 0 1)"
    "smoothstep 0 1 (glsl_clamp v 0 1) \<le> smoothstep 0 1 1"
    by (simp_all only: smoothstep01_mono)
  then show ?thesis using lo hi c by simp
qed

lemma smoke_density_antimono:
  assumes "v \<le> v'"
  shows "smoke_density n (u', v') \<le> smoke_density n (u, v)"
proof -
  have "smoothstep 0 1 v \<le> smoothstep 0 1 v'" using assms by (rule smoothstep01_mono)
  then have "n * (12 / 10) - 25 / 100 + (1 - smoothstep 0 1 v') * (15 / 100)
      \<le> n * (12 / 10) - 25 / 100 + (1 - smoothstep 0 1 v) * (15 / 100)"
    by simp
  then show ?thesis
    unfolding smoke_density_def smoke_fadeUp_def snd_conv by (rule glsl_clamp_mono)
qed

text \<open>
  C6 (as amended).  The density of the smoke shader is the sampled noise rescaled as
  \<open>n * 1.2 - 0.25\<close> plus a vertical term \<open>(1 - smoothstep(0, 1, v)) * 0.15\<close>, clamped to
  \<open>[0,1]\<close>.  The vertical term lies in \<open>[0, 0.15]\<close>, is \<open>0.15\<close> at the bottom of the
  billboard and \<open>0\<close> at its top, so for a fixed sample the density never grows with \<open>v\<close>:
  it is raised near the bottom and weakens toward the top.
\<close>

theorem smoke_density_shape:
  "smoke_density n (u, v) =
     min (max (n * (12 / 10) - 25 / 100 + (1 - smoothstep 0 1 v) * (15 / 100)) 0) 1 \<and>
   0 \<le> smoke_density n (u, v) \<and> smoke_density n (u, v) \<le> 1 \<and>
   0 \<le> (1 - smoothstep 0 1 v) * (15 / 100) \<and> (1 - smoothstep 0 1 v) * (15 / 100) \<le> 15 / 100 \<and>
   (v \<le> 0 \<longrightarrow> (1 - smoothstep 0 1 v) * (15 / 100) = 15 / 100) \<and>
   (1 \<le> v \<longrightarrow> (1 - smoothstep 0 1 v) * (15 / 100) = 0) \<and>
   (v \<le> v' \<longrightarrow> smoke_density n (u', v') \<le> smoke_density n (u, v))"
proof (intro conjI impI)
  show "smoke_density n (u, v) =
     min (max (n * (12 / 10) - 25 / 100 + (1 - smoothstep 0 1 v) * (15 / 100)) 0) 1"
    by (simp add: smoke_density_def smoke_fadeUp_def glsl_clamp_def)
  show "0 \<le> smoke_density n (u, v)" "smoke_density n (u, v) \<le> 1"
    using glsl_clamp_range [of 0 1] by (simp_all add: smoke_density_def)
  show "0 \<le> (1 - smoothstep 0 1 v) * (15 / 100)" "(1 - smoothstep 0 1 v) * (15 / 100) \<le> 15 / 100"
    using smoothstep01_range [of v] by simp_all
  show "(1 - smoothstep 0 1 v) * (15 / 100) = 15 / 100" if "v \<le> 0"
    using that by (simp add: smoothstep_def glsl_clamp_def max_def)
  show "(1 - smoothstep 0 1 v) * (15 / 100) = 0" if "1 \<le> v"
    using that by (simp add: smoothstep_def glsl_clamp_def min_def max_def)
  show "smoke_density n (u', v') \<le> smoke_density n (u, v)" if "v \<le> v'"
    using that by (rule smoke_density_antimono)
qed

theorem smoke_density_shape_witness:
  "smoke_density (1 / 2) (1 / 2, 0) = 1 / 2 \<and> smoke_density (1 / 2) (1 / 2, 1) = 35 / 100 \<and>
   (0::real) \<le> 0 \<and> (1 - smoothstep 0 1 0) * (15 / 100) = 15 / 100 \<and>
   (1::real) \<le> 1 \<and> (1 - smoothstep 0 1 1) * (15 / 100) = 0 \<and>
   (0::real) \<le> 1 \<and> smoke_density (1 / 2) (1 / 2, 1) \<le> smoke_density (1 / 2) (1 / 2, 0)"
proof -
  have a: "smoke_density (1 / 2) (1 / 2, 0) = 1 / 2" "smoke_density (1 / 2) (1 / 2, 1) = 35 / 100"
    by (simp_all add: smoke_density_def smoke_fadeUp_def smoothstep_def glsl_clamp_def)
  show ?thesis
    using smoke_density_shape [of "1 / 2" "1 / 2" 0 1 "1 / 2"] smoke_density_shape [of "1 / 2" "1 / 2" 1 1 "1 / 2"] a
    by simp
qed

text \<open>
  C6 as stated fails: with the sample \<open>n = 0.5\<close> the density at the top of the billboard
  (\<open>v = 1\<close>) is \<open>0.35\<close>, below the density \<open>0.5\<close> at its bottom (\<open>v = 0\<close>).
\<close>

theorem smoke_density_counterexample:
  "smoke_density (1 / 2) (1 / 2, 1) < smoke_density (1 / 2) (1 / 2, 0)"
  by (simp add: smoke_density_def smoke_fadeUp_def smoothstep_def glsl_clamp_def)



section \<open>Smoke sampling coordinate\<close>


lemma smoke_wave_bound: "\<bar>smoke_wave U uv\<bar> \<le> 15 / 100"
proof -
  have g: "\<bar>s * (1 / 10) + t * (5 / 100)\<bar> \<le> 15 / 100" if "\<bar>s\<bar> \<le> 1" "\<bar>t\<bar> \<le> 1" for s t :: real
    using that by (auto simp add: abs_if split: if_splits)
  show ?thesis unfolding smoke_wave_def by (rule g) simp_all
qed

lemma smoke_sample_only:
  assumes "uNoise (smoke_p U uv) = uNoise' (smoke_p U uv)"
  shows "FRAG_SMOKE uNoise U uv = FRAG_SMOKE uNoise' U uv"
  using assms by (simp add: FRAG_SMOKE_def Let_def)

text \<open>
  C7 (as amended).  The smoke shader samples the noise texture at
  \<open>(u * uScale + wave, v * uScale, time * speed)\<close> and nowhere else: the two-frequency
  sine wave, of magnitude at most \<open>0.15\<close>, is added after the scaling by \<open>uScale\<close>, and
  the depth axis is \<open>time * speed\<close>.  The horizontal coordinate equals
  \<open>(u + wave) * uScale\<close> exactly when the wave vanishes or \<open>uScale = 1\<close>.
\<close>

theorem smoke_sampling_coordinate:
  "smoke_p U (u, v) = (u * uScale U + smoke_wave U (u, v), v * uScale U, uTime U * uSpeed U) \<and>
   smoke_wave U (u, v) =
     sin (v * 8 + uTime U * (8 / 10)) * (1 / 10) + sin (v * (35 / 10) + uTime U * (4 / 10)) * (5 / 100) \<and>
   \<bar>smoke_wave U (u, v)\<bar> \<le> 15 / 100 \<and>
   (fst (smoke_p U (u, v)) = (u + smoke_wave U (u, v)) * uScale U
      \<longleftrightarrow> smoke_wave U (u, v) = 0 \<or> uScale U = 1) \<and>
   (uNoise (smoke_p U (u, v)) = uNoise' (smoke_p U (u, v))
      \<longrightarrow> FRAG_SMOKE uNoise U (u, v) = FRAG_SMOKE uNoise' U (u, v))"
proof (intro conjI impI)
  show "smoke_p U (u, v) = (u * uScale U + smoke_wave U (u, v), v * uScale U, uTime U * uSpeed U)"
    by (simp add: smoke_p_def)
  show "smoke_wave U (u, v) =
     sin (v * 8 + uTime U * (8 / 10)) * (1 / 10) + sin (v * (35 / 10) + uTime U * (4 / 10)) * (5 / 100)"
    by (simp add: smoke_wave_def)
  show "\<bar>smoke_wave U (u, v)\<bar> \<le> 15 / 100" by (rule smoke_wave_bound)
  show "fst (smoke_p U (u, v)) = (u + smoke_wave U (u, v)) * uScale U
      \<longleftrightarrow> smoke_wave U (u, v) = 0 \<or> uScale U = 1"
  proof -
    have "fst (smoke_p U (u, v)) - (u + smoke_wave U (u, v)) * uScale U =
        smoke_wave U (u, v) * (1 - uScale U)"
      by (simp add: smoke_p_def algebra_simps)
    moreover have "smoke_wave U (u, v) * (1 - uScale U) = 0 \<longleftrightarrow> smoke_wave U (u, v) = 0 \<or> uScale U = 1"
      by auto
    ultimately show ?thesis by (metis eq_iff_diff_eq_0)
  qed
  show "FRAG_SMOKE uNoise U (u, v) = FRAG_SMOKE uNoise' U (u, v)"
    if "uNoise (smoke_p U (u, v)) = uNoise' (smoke_p U (u, v))"
    using that by (rule smoke_sample_only)
qed

lemma smoke_example_wave: "smoke_wave smoke_example (1, 0) = 5 / 100"
proof -
  have "5 * pi / 4 * (8 / 10) = pi" "5 * pi / 4 * (4 / 10) = pi / 2" by simp_all
  then show ?thesis by (simp add: smoke_wave_def smoke_example_def)
qed

theorem smoke_sampling_coordinate_witness:
  "smoke_p smoke_example (1, 0) = (205 / 100, 0, 5 * pi / 16) \<and>
   (\<lambda>q. fst q) (smoke_p smoke_example (1, 0)) = (\<lambda>q. 205 / 100) (smoke_p smoke_example (1, 0)) \<and>
   FRAG_SMOKE (\<lambda>q. fst q) smoke_example (1, 0) = FRAG_SMOKE (\<lambda>q. 205 / 100) smoke_example (1, 0)"
proof -
  have e: "smoke_p smoke_example (1, 0) = (205 / 100, 0, 5 * pi / 16)"
    by (simp add: smoke_p_def smoke_example_wave) (simp add: smoke_example_def)
  show ?thesis
    using smoke_sampling_coordinate [of smoke_example 1 0 "\<lambda>q. fst q" "\<lambda>q. 205 / 100"] e
    by simp
qed

text \<open>
  C7 as stated fails: at \<open>(u, v) = (1, 0)\<close>, time \<open>5\<pi>/4\<close> and \<open>uScale = 2\<close> the wave is
  \<open>0.05\<close>, the shader samples at \<open>x = 2.05\<close>, and \<open>(u + wave) * uScale\<close> is \<open>2.1\<close>.
\<close>

theorem smoke_sampling_coordinate_counterexample:
  "fst (smoke_p smoke_example (1, 0)) \<noteq> (fst (1::real, 0::real) + smoke_wave smoke_example (1, 0)) * uScale smoke_example"
  by (simp add: smoke_p_def smoke_example_wave) (simp add: smoke_example_def)



section \<open>Compositing order\<close>


lemma draw_fire_additive:
  "draw_fire fire dst =
     \<lparr>red = glsl_clamp (red dst + red fire * alpha fire) 0 1,
      green = glsl_clamp (green dst + green fire * alpha fire) 0 1,
      blue = glsl_clamp (blue dst + blue fire * alpha fire) 0 1,
      alpha = glsl_clamp (alpha dst + alpha fire * alpha fire) 0 1\<rparr>"
  by (simp add: draw_fire_def blend_def Let_def add.commute)

lemma draw_smoke_over:
  "draw_smoke smoke dst =
     \<lparr>red = glsl_clamp (red smoke * alpha smoke + red dst * (1 - alpha smoke)) 0 1,
      green = glsl_clamp (green smoke * alpha smoke + green dst * (1 - alpha smoke)) 0 1,
      blue = glsl_clamp (blue smoke * alpha smoke + blue dst * (1 - alpha smoke)) 0 1,
      alpha = glsl_clamp (alpha smoke * alpha smoke + alpha dst * (1 - alpha smoke)) 0 1\<rparr>"
  by (simp add: draw_smoke_def blend_def Let_def)

text \<open>
  C9.  There are a fire fragment, a smoke fragment and a destination colour, all with
  channels in \<open>[0,1]\<close>, for which fire (additive) then smoke (alpha) leaves another colour
  in the framebuffer than smoke then fire: opaque white fire and opaque black smoke over
  black give black in the order of \<^verbatim>\<open>main\<close> and white in the reverse order.
\<close>

theorem compositing_order_matters:
  "\<exists>fire smoke dst.
     draw_smoke smoke (draw_fire fire dst) \<noteq> draw_fire fire (draw_smoke smoke dst) \<and>
     composite fire smoke dst = draw_smoke smoke (draw_fire fire dst) \<and>
     draw_fire fire dst =
       \<lparr>red = red dst + red fire * alpha fire, green = green dst + green fire * alpha fire,
        blue = blue dst + blue fire * alpha fire, alpha = alpha dst + alpha fire * alpha fire\<rparr> \<and>
     draw_smoke smoke dst =
       \<lparr>red = red smoke * alpha smoke + red dst * (1 - alpha smoke),
        green = green smoke * alpha smoke + green dst * (1 - alpha smoke),
        blue = blue smoke * alpha smoke + blue dst * (1 - alpha smoke),
        alpha = alpha smoke * alpha smoke + alpha dst * (1 - alpha smoke)\<rparr>"
proof (intro exI conjI)
  let ?fire = "\<lparr>red = 1, green = 1, blue = 1, alpha = 1\<rparr>"
  let ?smoke = "\<lparr>red = 0, green = 0, blue = 0, alpha = 1\<rparr>"
  let ?dst = "\<lparr>red = 0, green = 0, blue = 0, alpha = 0\<rparr>"
  show "draw_smoke ?smoke (draw_fire ?fire ?dst) \<noteq> draw_fire ?fire (draw_smoke ?smoke ?dst)"
    by (simp add: draw_fire_additive draw_smoke_over glsl_clamp_def)
  show "composite ?fire ?smoke ?dst = draw_smoke ?smoke (draw_fire ?fire ?dst)"
    by (simp add: composite_def)
  show "draw_fire ?fire ?dst =
       \<lparr>red = red ?dst + red ?fire * alpha ?fire, green = green ?dst + green ?fire * alpha ?fire,
        blue = blue ?dst + blue ?fire * alpha ?fire, alpha = alpha ?dst + alpha ?fire * alpha ?fire\<rparr>"
    by (simp add: draw_fire_additive glsl_clamp_def)
  show "draw_smoke ?smoke ?dst =
       \<lparr>red = red ?smoke * alpha ?smoke + red ?dst * (1 - alpha ?smoke),
        green = green ?smoke * alpha ?smoke + green ?dst * (1 - alpha ?smoke),
        blue = blue ?smoke * alpha ?smoke + blue ?dst * (1 - alpha ?smoke),
        alpha = alpha ?smoke * alpha ?smoke + alpha ?dst * (1 - alpha ?smoke)\<rparr>"
    by (simp add: draw_smoke_over glsl_clamp_def)
qed



section \<open>Tuning clamps\<close>


lemma fl_nonneg: "0 \<le> x \<Longrightarrow> 0 \<le> fl x"
  using fl_mono [of 0 x] by (simp add: fl_zero)

lemma fl_fixed:
  "fl (fl (5 / 10)) = fl (5 / 10)" "fl (fl 6) = fl 6" "fl (fl (8 / 10)) = fl (8 / 10)"
  "fl (fl (2 / 100)) = fl (2 / 100)" "fl (fl (5 / 100)) = fl (5 / 100)" "fl (fl 2) = fl 2"
  "fl (fl (3 / 10)) = fl (3 / 10)" "fl (fl (9 / 10)) = fl (9 / 10)"
  by code_simp+

lemma dec_in_range:
  assumes "lo \<le> s" "s \<le> hi" "0 \<le> c" "fl hi = hi"
  shows "lo \<le> max lo (fsub s c) \<and> max lo (fsub s c) \<le> hi"
proof -
  have "fl (s - c) \<le> fl hi" using assms by (intro fl_mono) simp
  then show ?thesis using assms by (simp add: fsub_def)
qed

lemma inc_in_range:
  assumes "lo \<le> s" "s \<le> hi" "0 \<le> c" "fl lo = lo"
  shows "lo \<le> min hi (fadd s c) \<and> min hi (fadd s c) \<le> hi"
proof -
  have "fl lo \<le> fl (s + c)" using assms by (intro fl_mono) simp
  then show ?thesis using assms by (simp add: fadd_def)
qed

lemma controls_in_range:
  assumes "(k, upd) \<in> set controls" "in_range P0"
  shows "in_range (upd P0)"
proof -
  have c: "0 \<le> fl (1 / 100)" "0 \<le> fl (1 / 1000)" "0 \<le> fl (5 / 1000)"
    by (simp_all add: fl_nonneg)
  from assms(1) consider
      "upd = (\<lambda>P0. P0\<lparr>smokeScale := max (fl (5 / 10)) (fsub (smokeScale P0) (fl (1 / 100)))\<rparr>)"
    | "upd = (\<lambda>P0. P0\<lparr>smokeScale := min (fl 6) (fadd (smokeScale P0) (fl (1 / 100)))\<rparr>)"
    | "upd = (\<lambda>P0. P0\<lparr>fireScale := max (fl (8 / 10)) (fsub (fireScale P0) (fl (1 / 100)))\<rparr>)"
    | "upd = (\<lambda>P0. P0\<lparr>fireScale := min (fl 6) (fadd (fireScale P0) (fl (1 / 100)))\<rparr>)"
    | "upd = (\<lambda>P0. P0\<lparr>smokeSpeed := min (fl (8 / 10)) (fadd (smokeSpeed P0) (fl (1 / 1000)))\<rparr>)"
    | "upd = (\<lambda>P0. P0\<lparr>smokeSpeed := max (fl (2 / 100)) (fsub (smokeSpeed P0) (fl (1 / 1000)))\<rparr>)"
    | "upd = (\<lambda>P0. P0\<lparr>fireSpeed := min (fl 2) (fadd (fireSpeed P0) (fl (5 / 1000)))\<rparr>)"
    | "upd = (\<lambda>P0. P0\<lparr>fireSpeed := max (fl (5 / 100)) (fsub (fireSpeed P0) (fl (5 / 1000)))\<rparr>)"
    | "upd = (\<lambda>P0. P0\<lparr>fireHeight := max (fl (3 / 10)) (fsub (fireHeight P0) (fl (5 / 1000)))\<rparr>)"
    | "upd = (\<lambda>P0. P0\<lparr>fireHeight := min (fl (9 / 10)) (fadd (fireHeight P0) (fl (5 / 1000)))\<rparr>)"
    unfolding controls_def by auto
  then show ?thesis
  proof cases
    case 1
    then show ?thesis
      using assms(2) dec_in_range [of "fl (5 / 10)" "smokeScale P0" "fl 6" "fl (1 / 100)"] c fl_fixed
      by (simp add: in_range_def)
  next
    case 2
    then show ?thesis
      using assms(2) inc_in_range [of "fl (5 / 10)" "smokeScale P0" "fl 6" "fl (1 / 100)"] c fl_fixed
      by (simp add: in_range_def)
  next
    case 3
    then show ?thesis
      using assms(2) dec_in_range [of "fl (8 / 10)" "fireScale P0" "fl 6" "fl (1 / 100)"] c fl_fixed
      by (simp add: in_range_def)
  next
    case 4
    then show ?thesis
      using assms(2) inc_in_range [of "fl (8 / 10)" "fireScale P0" "fl 6" "fl (1 / 100)"] c fl_fixed
      by (simp add: in_range_def)
  next
    case 5
    then show ?thesis
      using assms(2) inc_in_range [of "fl (2 / 100)" "smokeSpeed P0" "fl (8 / 10)" "fl (1 / 1000)"] c fl_fixed
      by (simp add: in_range_def)
  next
    case 6
    then show ?thesis
      using assms(2) dec_in_range [of "fl (2 / 100)" "smokeSpeed P0" "fl (8 / 10)" "fl (1 / 1000)"] c fl_fixed
      by (simp add: in_range_def)
  next
    case 7
    then show ?thesis
      using assms(2) inc_in_range [of "fl (5 / 100)" "fireSpeed P0" "fl 2" "fl (5 / 1000)"] c fl_fixed
      by (simp add: in_range_def)
  next
    case 8
    then show ?thesis
      using assms(2) dec_in_range [of "fl (5 / 100)" "fireSpeed P0" "fl 2" "fl (5 / 1000)"] c fl_fixed
      by (simp add: in_range_def)
  next
    case 9
    then show ?thesis
      using assms(2) dec_in_range [of "fl (3 / 10)" "fireHeight P0" "fl (9 / 10)" "fl (5 / 1000)"] c fl_fixed
      by (simp add: in_range_def)
  next
    case 10
    then show ?thesis
      using assms(2) inc_in_range [of "fl (3 / 10)" "fireHeight P0" "fl (9 / 10)" "fl (5 / 1000)"] c fl_fixed
      by (simp add: in_range_def)
  qed
qed

lemma fold_controls_in_range:
  "set cs \<subseteq> set controls \<Longrightarrow> in_range P0 \<Longrightarrow>
   in_range (fold (\<lambda>(k, upd) Q. if pressed k then upd Q else Q) cs P0)"
proof (induction cs arbitrary: P0)
  case Nil
  then show ?case by simp
next
  case (Cons c cs)
  obtain k upd where c: "c = (k, upd)" by (cases c)
  with Cons.prems have "in_range (upd P0)" by (intro controls_in_range [of k upd]) simp_all
  with Cons c show ?case by simp
qed

lemma quick_controls_in_range: "in_range P0 \<Longrightarrow> in_range (quick_controls pressed P0)"
  unfolding quick_controls_def by (rule fold_controls_in_range) simp_all

lemma range_literals:
  "fl (5 / 10) = 1 / 2 \<and> fl 6 = 6 \<and> fl 2 = 2 \<and>
   fl (8 / 10) = 13421773 / 16777216 \<and> fl (2 / 100) = 5368709 / 268435456 \<and>
   fl (5 / 100) = 13421773 / 268435456 \<and> fl (3 / 10) = 5033165 / 16777216 \<and>
   fl (9 / 10) = 7549747 / 8388608"
  by code_simp

text \<open>
  C8.  If the five tunable parameters start within their ranges, they are within them
  after every iteration of the main loop, whatever keys are down in each iteration.  The
  bounds are the \<^verbatim>\<open>float\<close> literals of the source, the binary32 numbers nearest to the
  decimals (they are listed in \<open>range_literals\<close>: \<^verbatim>\<open>0.5f\<close>, \<^verbatim>\<open>6.0f\<close> and \<^verbatim>\<open>2.0f\<close> are
  exact, the others are within \<open>2\<^sup>-\<^sup>2\<^sup>6\<close> of the decimal), and the start values of
  \<^verbatim>\<open>main\<close> are within them.
\<close>

theorem tuning_clamp_invariant:
  "in_range initial_params \<and> (in_range P0 \<longrightarrow> in_range (main_loop frames P0))"
proof
  show "in_range initial_params" by code_simp
  show "in_range P0 \<longrightarrow> in_range (main_loop frames P0)"
    unfolding main_loop_def
  proof (induction frames arbitrary: P0)
    case Nil
    then show ?case by simp
  next
    case (Cons f frames)
    then show ?case by (simp add: quick_controls_in_range)
  qed
qed

theorem tuning_clamp_invariant_witness:
  "in_range initial_params \<and>
   in_range (main_loop [\<lambda>k. True, \<lambda>k. k = KEY_W \<or> k = KEY_MINUS, \<lambda>k. False] initial_params)"
  using tuning_clamp_invariant [of initial_params "[\<lambda>k. True, \<lambda>k. k = KEY_W \<or> k = KEY_MINUS, \<lambda>k. False]"]
  by simp



section \<open>Magnitudes under rounding\<close>


lemma round_even_of_int: "round_even (of_int k) = k"
  by (simp add: round_even_def)

lemma ilog2_pow2: "ilog2 (2 ^ n) = int n"
proof -
  have "\<lfloor>(2::real) ^ n\<rfloor> = 2 ^ n"
    by (metis floor_of_int of_int_numeral of_int_power)
  moreover have "bitlen (1 * 2 ^ n) = bitlen 1 + int n" by (rule bitlen_pow2) simp
  moreover have "bitlen 1 = 1" by (simp add: compute_bitlen)
  ultimately show ?thesis by (simp add: ilog2_def)
qed

lemma fl_pow2: "fl (2 ^ n) = 2 ^ n"
proof -
  have e: "ulp_exp (2 ^ n) = int n - 23" by (simp add: ulp_exp_def ilog2_pow2)
  have g: "(2::real) powi int n = of_int (2 ^ nat (int n - (int n - 23))) * 2 powi (int n - 23)"
    by (rule pow2_grid) simp
  then have g': "(2::real) ^ n = of_int (2 ^ 23) * 2 powi (int n - 23)" by simp
  have "(2::real) ^ n / 2 powi (int n - 23) = of_int (2 ^ 23)"
    by (subst g') simp
  then have "flpos (2 ^ n) = of_int (2 ^ 23) * 2 powi (int n - 23)"
    unfolding flpos_def e by (simp only: round_even_of_int)
  with g' show ?thesis by (simp add: fl_pos)
qed

lemma fl_minus: "fl (- x) = - fl x"
  by (simp add: fl_def)

lemma fl_abs_le:
  assumes "\<bar>v\<bar> \<le> 2 ^ n"
  shows "\<bar>fl v\<bar> \<le> 2 ^ n"
proof -
  have "fl v \<le> fl (2 ^ n)" using assms by (intro fl_mono) simp
  moreover have "fl (- (2 ^ n)) \<le> fl v" using assms by (intro fl_mono) simp
  ultimately show ?thesis by (simp add: fl_pow2 fl_minus abs_le_iff)
qed

lemma fl_le_pow2: "v \<le> 2 ^ n \<Longrightarrow> fl v \<le> 2 ^ n"
  using fl_mono [of v "2 ^ n"] by (simp add: fl_pow2)



lemma fadd_abs:
  assumes "\<bar>a\<bar> \<le> 2 ^ m" "\<bar>b\<bar> \<le> 2 ^ m"
  shows "\<bar>fadd a b\<bar> \<le> 2 ^ Suc m"
  unfolding fadd_def using assms by (intro fl_abs_le) (simp add: abs_le_iff)

lemma fsub_abs:
  assumes "\<bar>a\<bar> \<le> 2 ^ m" "\<bar>b\<bar> \<le> 2 ^ m"
  shows "\<bar>fsub a b\<bar> \<le> 2 ^ Suc m"
  unfolding fsub_def using assms by (intro fl_abs_le) (simp add: abs_le_iff)

lemma fmul_abs:
  assumes "\<bar>a\<bar> \<le> 2 ^ m" "\<bar>b\<bar> \<le> 2 ^ n"
  shows "\<bar>fmul a b\<bar> \<le> 2 ^ (m + n)"
proof -
  have "\<bar>a\<bar> * \<bar>b\<bar> \<le> 2 ^ m * 2 ^ n" using assms by (intro mult_mono) simp_all
  then have "\<bar>a * b\<bar> \<le> 2 ^ (m + n)" by (simp add: abs_mult power_add)
  then show ?thesis unfolding fmul_def by (rule fl_abs_le)
qed

lemma abs_le_pow2_mono: "\<bar>a::real\<bar> \<le> 2 ^ m \<Longrightarrow> m \<le> n \<Longrightarrow> \<bar>a\<bar> \<le> 2 ^ n"
proof -
  assume "\<bar>a\<bar> \<le> 2 ^ m" "m \<le> n"
  moreover from \<open>m \<le> n\<close> have "(2::real) ^ m \<le> 2 ^ n" by (intro power_increasing) simp_all
  ultimately show ?thesis by linarith
qed

lemma fade_abs:
  assumes "\<bar>t\<bar> \<le> 1"
  shows "\<bar>fade t\<bar> \<le> 2 ^ 6"
proof -
  have t: "\<bar>t\<bar> \<le> 2 ^ 0" using assms by simp
  have a: "\<bar>fmul t t\<bar> \<le> 2 ^ 0" using fmul_abs [OF t t] by simp
  have b: "\<bar>fmul (fmul t t) t\<bar> \<le> 2 ^ 0" using fmul_abs [OF a t] by simp
  have "\<bar>6::real\<bar> \<le> 2 ^ 4" by simp
  from fmul_abs [OF t this] have c: "\<bar>fmul t 6\<bar> \<le> 2 ^ 4" by simp
  have "\<bar>15::real\<bar> \<le> 2 ^ 4" by simp
  from fsub_abs [OF c this] have d: "\<bar>fsub (fmul t 6) 15\<bar> \<le> 2 ^ 5" by simp
  from fmul_abs [OF t d] have e: "\<bar>fmul t (fsub (fmul t 6) 15)\<bar> \<le> 2 ^ 5" by simp
  have "\<bar>10::real\<bar> \<le> 2 ^ 5" by simp
  from fadd_abs [OF e this] have g: "\<bar>fadd (fmul t (fsub (fmul t 6) 15)) 10\<bar> \<le> 2 ^ 6" by simp
  from fmul_abs [OF b g] show ?thesis by (simp add: fade_def)
qed

lemma grad_abs:
  assumes "\<bar>x\<bar> \<le> 2" "\<bar>y\<bar> \<le> 2" "\<bar>z\<bar> \<le> 2"
  shows "\<bar>grad h x y z\<bar> \<le> 2 ^ 2"
proof -
  have g: "\<bar>fadd a b\<bar> \<le> 2 ^ 2" if "\<bar>a\<bar> \<le> 2" "\<bar>b\<bar> \<le> 2" for a b
    using fadd_abs [of a 1 b] that by simp
  show ?thesis unfolding grad_def Let_def using assms by (intro g) (simp_all split: if_splits)
qed

lemma lerp_abs:
  assumes "\<bar>a\<bar> \<le> 2 ^ m" "\<bar>b\<bar> \<le> 2 ^ m" "\<bar>t\<bar> \<le> 2 ^ 6"
  shows "\<bar>lerp a b t\<bar> \<le> 2 ^ (m + 8)"
proof -
  from fsub_abs [OF assms(2,1)] have "\<bar>fsub b a\<bar> \<le> 2 ^ Suc m" .
  from fmul_abs [OF this assms(3)] have p: "\<bar>fmul (fsub b a) t\<bar> \<le> 2 ^ (m + 7)"
    by (simp add: add.commute)
  have "\<bar>a\<bar> \<le> 2 ^ (m + 7)" using assms(1) by (rule abs_le_pow2_mono) simp
  from fadd_abs [OF this p] show ?thesis by (simp add: lerp_def add.commute)
qed

lemma offset_abs: "\<bar>fsub x (floorf x)\<bar> \<le> 1"
proof -
  have "\<bar>x - of_int \<lfloor>x\<rfloor>\<bar> \<le> 2 ^ 0" by (simp add: abs_le_iff) linarith
  then have "\<bar>fl (x - of_int \<lfloor>x\<rfloor>)\<bar> \<le> 2 ^ 0" by (rule fl_abs_le)
  then show ?thesis by (simp add: fsub_def floorf_def)
qed

lemma offset_minus_abs: "\<bar>t\<bar> \<le> 1 \<Longrightarrow> \<bar>fsub t 1\<bar> \<le> 2"
  using fsub_abs [of t 0 1] by simp

lemma noise_value_abs:
  assumes "\<bar>x\<bar> \<le> 1" "\<bar>y\<bar> \<le> 1" "\<bar>z\<bar> \<le> 1"
  shows "\<bar>noise_value hAA hBA hAB hBB hAA1 hBA1 hAB1 hBB1 x y z\<bar> \<le> 2 ^ 27"
proof -
  note x1 = offset_minus_abs [OF assms(1)] and y1 = offset_minus_abs [OF assms(2)]
    and z1 = offset_minus_abs [OF assms(3)]
  have x: "\<bar>x\<bar> \<le> 2" and y: "\<bar>y\<bar> \<le> 2" and z: "\<bar>z\<bar> \<le> 2" using assms by simp_all
  note u = fade_abs [OF assms(1)] and v = fade_abs [OF assms(2)] and w = fade_abs [OF assms(3)]
  have l1: "\<bar>lerp (grad h x' y' z') (grad h' x'' y'' z'') (fade x)\<bar> \<le> 2 ^ 10"
    if "\<bar>x'\<bar> \<le> 2" "\<bar>y'\<bar> \<le> 2" "\<bar>z'\<bar> \<le> 2" "\<bar>x''\<bar> \<le> 2" "\<bar>y''\<bar> \<le> 2" "\<bar>z''\<bar> \<le> 2"
    for h h' x' y' z' x'' y'' z''
    using lerp_abs [OF grad_abs grad_abs u, of x' y' z' x'' y'' z'' h h'] that by simp
  have l2: "\<bar>lerp a b (fade y)\<bar> \<le> 2 ^ 18" if "\<bar>a\<bar> \<le> 2 ^ 10" "\<bar>b\<bar> \<le> 2 ^ 10" for a b
    using lerp_abs [OF that v] by simp
  have l3: "\<bar>lerp a b (fade z)\<bar> \<le> 2 ^ 26" if "\<bar>a\<bar> \<le> 2 ^ 18" "\<bar>b\<bar> \<le> 2 ^ 18" for a b
    using lerp_abs [OF that w] by simp
  have r: "\<bar>fmul (1 / 2) (fadd res 1)\<bar> \<le> 2 ^ 27" if "\<bar>res\<bar> \<le> 2 ^ 26" for res
  proof -
    have "\<bar>1::real\<bar> \<le> 2 ^ 26" by simp
    from fadd_abs [OF that this] have "\<bar>fadd res 1\<bar> \<le> 2 ^ 27" by simp
    moreover have "\<bar>1 / 2 :: real\<bar> \<le> 2 ^ 0" by simp
    ultimately show ?thesis using fmul_abs [of "1 / 2" 0 "fadd res 1" 27] by simp
  qed
  show ?thesis
    unfolding noise_value_def Let_def
    by (intro r l3 l2 l1 x y z x1 y1 z1)
qed

lemma noise_abs:
  assumes "noise P x y z = Some v"
  shows "\<bar>v\<bar> \<le> 2 ^ 27"
proof -
  from assms obtain hAA hBA hAB hBB hAA1 hBA1 hAB1 hBB1 where
    "v = noise_value hAA hBA hAB hBB hAA1 hBA1 hAB1 hBB1
           (fsub x (floorf x)) (fsub y (floorf y)) (fsub z (floorf z))"
    unfolding noise_def Let_def by (auto simp add: bind_eq_Some_conv)
  then show ?thesis
    using noise_value_abs [OF offset_abs offset_abs offset_abs, of hAA hBA hAB hBB hAA1 hBA1 hAB1 hBB1 x y z]
    by simp
qed


section \<open>One baked cell\<close>


lemma clamp01_range: "0 \<le> clamp01 v \<and> clamp01 v \<le> 1"
  by (simp add: clamp01_def)

lemma fl_255: "fl 255 = 255"
  by code_simp

lemma to_uchar_round:
  assumes "0 \<le> v" "v \<le> 1"
  shows "to_uchar (roundf (fmul v 255)) = Some (nat \<lfloor>fmul v 255 + 1 / 2\<rfloor>) \<and>
         0 \<le> \<lfloor>fmul v 255 + 1 / 2\<rfloor> \<and> \<lfloor>fmul v 255 + 1 / 2\<rfloor> \<le> 255"
proof -
  have lo: "0 \<le> fmul v 255"
    unfolding fmul_def using assms fl_mono [of 0 "v * 255"] by (simp add: fl_zero)
  have hi: "fmul v 255 \<le> 255"
    unfolding fmul_def using assms fl_mono [of "v * 255" 255] by (simp add: fl_255)
  have a: "0 \<le> \<lfloor>fmul v 255 + 1 / 2\<rfloor>" using lo by simp
  have b: "\<lfloor>fmul v 255 + 1 / 2\<rfloor> \<le> 255" using hi by (simp add: floor_le_iff)
  have "roundf (fmul v 255) = of_int \<lfloor>fmul v 255 + 1 / 2\<rfloor>" using lo by (simp add: roundf_def)
  then have "to_uchar (roundf (fmul v 255)) = Some (nat \<lfloor>fmul v 255 + 1 / 2\<rfloor>)"
    using a b by (simp add: to_uchar_def Let_def)
  with a b show ?thesis by simp
qed

lemma quantize_range: "0 \<le> quantize S \<and> quantize S \<le> 255"
  unfolding quantize_def using to_uchar_round [of "clamp01 (fdiv S (fl (3 / 2)))"] clamp01_range by simp

lemma bake_cell_eq:
  "bake_cell per octaves lacunarity gain invN x y z =
     map_option (\<lambda>(f, amp, freq). nat (quantize f))
       (fbm (nat octaves) per lacunarity gain (fmul (fl (of_int x)) invN) (fmul (fl (of_int y)) invN)
          (fmul (fl (of_int z)) invN) (0, 1, 1))"
proof (cases "fbm (nat octaves) per lacunarity gain (fmul (fl (of_int x)) invN) (fmul (fl (of_int y)) invN)
          (fmul (fl (of_int z)) invN) (0, 1, 1)")
  case None
  then show ?thesis by (simp add: bake_cell_def)
next
  case (Some st)
  obtain f amp freq where st: "st = (f, amp, freq)" by (cases st)
  have "to_uchar (roundf (fmul (clamp01 (fdiv f (fl (3 / 2)))) 255)) = Some (nat (quantize f))"
    unfolding quantize_def using to_uchar_round [of "clamp01 (fdiv f (fl (3 / 2)))"] clamp01_range by simp
  with Some st show ?thesis by (simp add: bake_cell_def)
qed

lemma finite32_Some: "finite32 v = Some w \<Longrightarrow> w = v"
  by (simp add: finite32_def split: if_splits)

lemma fbm_refines:
  assumes "fbm n per lacunarity gain fx fy fz (f0, amp_at gain k, freq_at lacunarity k) = Some (f, amp, freq)"
    and "fbm_sum per lacunarity gain fx fy fz k = Some f0"
  shows "fbm_sum per lacunarity gain fx fy fz (k + n) = Some f \<and>
         amp = amp_at gain (k + n) \<and> freq = freq_at lacunarity (k + n)"
  using assms
proof (induction n arbitrary: f0 k)
  case 0
  then show ?case by simp
next
  case (Suc n)
  from Suc.prems(1) obtain nz f' freq' amp' where
    nz: "noise per (fmul (fmul fx (freq_at lacunarity k)) 8) (fmul (fmul fy (freq_at lacunarity k)) 8)
           (fmul (fmul fz (freq_at lacunarity k)) 8) = Some nz"
    and f': "finite32 (fadd f0 (fmul (amp_at gain k) nz)) = Some f'"
    and freq': "finite32 (fmul (freq_at lacunarity k) lacunarity) = Some freq'"
    and amp': "finite32 (fmul (amp_at gain k) gain) = Some amp'"
    and rest: "fbm n per lacunarity gain fx fy fz (f', amp', freq') = Some (f, amp, freq)"
    by (auto simp add: bind_eq_Some_conv)
  have a: "amp' = amp_at gain (Suc k)" using finite32_Some [OF amp'] by (simp add: amp_at_def)
  have q: "freq' = freq_at lacunarity (Suc k)" using finite32_Some [OF freq'] by (simp add: freq_at_def)
  have s: "fbm_sum per lacunarity gain fx fy fz (Suc k) = Some f'"
    using Suc.prems(2) nz finite32_Some [OF f'] by (simp add: octave_def)
  from Suc.IH [of f' "Suc k"] rest s show ?case by (simp add: a q)
qed

lemma bake_cell_formula:
  assumes "bake_cell per octaves lacunarity gain invN x y z = Some c"
  shows "\<exists>S. fbm_sum per lacunarity gain (fmul (fl (of_int x)) invN) (fmul (fl (of_int y)) invN)
            (fmul (fl (of_int z)) invN) (nat octaves) = Some S \<and>
          int c = quantize S \<and> c \<le> 255"
proof -
  from assms obtain f amp freq where
    st: "fbm (nat octaves) per lacunarity gain (fmul (fl (of_int x)) invN) (fmul (fl (of_int y)) invN)
          (fmul (fl (of_int z)) invN) (0, 1, 1) = Some (f, amp, freq)"
    and c: "c = nat (quantize f)"
    by (auto simp add: bake_cell_eq)
  have "fbm_sum per lacunarity gain (fmul (fl (of_int x)) invN) (fmul (fl (of_int y)) invN)
            (fmul (fl (of_int z)) invN) (0 + nat octaves) = Some f"
    using fbm_refines [of "nat octaves" per lacunarity gain _ _ _ 0 0 f amp freq] st
    by (simp add: amp_at_def freq_at_def)
  then show ?thesis using c quantize_range [of f] by auto
qed


section \<open>The iterations of the bake\<close>


lemma for_upto_Suc: "for_upto (Suc n) body s = Option.bind (for_upto n body s) (body n)"
  by (simp add: for_upto_def)

lemma for_upto_rule:
  assumes "for_upto n body s = Some s'"
    and "I 0 s"
    and "\<And>i t t'. i < n \<Longrightarrow> I i t \<Longrightarrow> body i t = Some t' \<Longrightarrow> I (Suc i) t'"
  shows "I n s'"
  using assms
proof (induction n arbitrary: s')
  case 0
  then show ?case by (simp add: for_upto_def)
next
  case (Suc n)
  from Suc.prems(1) obtain t where t: "for_upto n body s = Some t" and b: "body n t = Some s'"
    by (auto simp add: for_upto_Suc bind_eq_Some_conv)
  have "I n t" using t Suc.prems(2,3) by (intro Suc.IH) simp_all
  then show ?case using b Suc.prems(3) [of n t s'] by simp
qed

lemma idx_lt: "a < b \<Longrightarrow> x < n \<Longrightarrow> a * n + x < b * (n::nat)"
proof -
  assume "a < b" "x < n"
  then have "a * n + x < Suc a * n" by simp
  also have "\<dots> \<le> b * n" using \<open>a < b\<close> by (intro mult_le_mono1) simp
  finally show ?thesis .
qed

lemma row_spec:
  fixes C :: "nat \<Rightarrow> nat option"
  assumes run: "for_upto n (\<lambda>x vox. do { b \<leftarrow> C x; Some (vox[base + x := b]) }) v = Some v'"
    and len: "base + n \<le> length v"
  shows "length v' = length v \<and> (\<forall>x<n. C x = Some (v' ! (base + x))) \<and>
         (\<forall>k. k < base \<or> base + n \<le> k \<longrightarrow> v' ! k = v ! k)"
proof -
  let ?I = "\<lambda>i t. length t = length v \<and> (\<forall>x<i. C x = Some (t ! (base + x))) \<and>
         (\<forall>k. k < base \<or> base + i \<le> k \<longrightarrow> t ! k = v ! k)"
  show ?thesis
  proof (rule for_upto_rule [OF run, of ?I])
    show "?I 0 v" by simp
  next
    fix i t t'
    assume i: "i < n" and I: "?I i t" and b: "(do { b \<leftarrow> C i; Some (t[base + i := b]) }) = Some t'"
    from b obtain c where c: "C i = Some c" and t': "t' = t[base + i := c]"
      by (auto simp add: bind_eq_Some_conv)
    have l: "base + i < length t" using i len I by simp
    have 1: "length t' = length v" using I t' by simp
    have 2: "C x = Some (t' ! (base + x))" if "x < Suc i" for x
    proof (cases "x = i")
      case True
      then show ?thesis using c t' l by simp
    next
      case False
      with that have "x < i" by simp
      then show ?thesis using I t' False by simp
    qed
    have 3: "t' ! k = v ! k" if "k < base \<or> base + Suc i \<le> k" for k
    proof -
      have "k \<noteq> base + i" using that by auto
      then have "t' ! k = t ! k" using t' by simp
      moreover have "k < base \<or> base + i \<le> k" using that by auto
      then have "t ! k = v ! k" using I by blast
      ultimately show ?thesis by simp
    qed
    from 1 2 3 show "?I (Suc i) t'" by blast
  qed
qed

lemma layer_spec:
  fixes C :: "nat \<Rightarrow> nat \<Rightarrow> nat option"
  assumes run: "for_upto n (\<lambda>y vox.
            for_upto n (\<lambda>x vox. do { b \<leftarrow> C x y; Some (vox[(zn + y) * n + x := b]) }) vox) v = Some v'"
    and len: "(zn + n) * n \<le> length v"
  shows "length v' = length v \<and> (\<forall>y<n. \<forall>x<n. C x y = Some (v' ! ((zn + y) * n + x))) \<and>
         (\<forall>k. k < zn * n \<or> (zn + n) * n \<le> k \<longrightarrow> v' ! k = v ! k)"
proof -
  let ?I = "\<lambda>i t. length t = length v \<and> (\<forall>y<i. \<forall>x<n. C x y = Some (t ! ((zn + y) * n + x))) \<and>
         (\<forall>k. k < zn * n \<or> (zn + i) * n \<le> k \<longrightarrow> t ! k = v ! k)"
  show ?thesis
  proof (rule for_upto_rule [OF run, of ?I])
    show "?I 0 v" by simp
  next
    fix i t t'
    assume i: "i < n" and I: "?I i t"
      and b: "for_upto n (\<lambda>x vox. do { b \<leftarrow> C x i; Some (vox[(zn + i) * n + x := b]) }) t = Some t'"
    have e: "(zn + i) * n + n = (zn + Suc i) * n" by simp
    have "(zn + Suc i) * n \<le> (zn + n) * n" using i by (intro mult_le_mono1) simp
    moreover have "length t = length v" using I by blast
    ultimately have l: "(zn + i) * n + n \<le> length t" using len e by linarith
    from row_spec [of n "\<lambda>x. C x i" "(zn + i) * n" t t', OF b l]
    have r1: "length t' = length t"
      and r2: "\<And>x. x < n \<Longrightarrow> C x i = Some (t' ! ((zn + i) * n + x))"
      and r3: "\<And>k. k < (zn + i) * n \<or> (zn + i) * n + n \<le> k \<Longrightarrow> t' ! k = t ! k"
      by blast+
    have 1: "length t' = length v" using r1 I by simp
    have 2: "C x y = Some (t' ! ((zn + y) * n + x))" if "y < Suc i" "x < n" for x y
    proof (cases "y = i")
      case True
      then show ?thesis using r2 that by simp
    next
      case False
      with that have y: "y < i" by simp
      then have "(zn + y) * n + x < (zn + i) * n" using that by (intro idx_lt) simp_all
      then have "t' ! ((zn + y) * n + x) = t ! ((zn + y) * n + x)" using r3 by simp
      then show ?thesis using I y that by simp
    qed
    have 3: "t' ! k = v ! k" if "k < zn * n \<or> (zn + Suc i) * n \<le> k" for k
    proof -
      have m: "zn * n \<le> (zn + i) * n" by (intro mult_le_mono1) simp
      have a: "k < (zn + i) * n \<or> (zn + i) * n + n \<le> k" using that m e by linarith
      have c: "k < zn * n \<or> (zn + i) * n \<le> k" using that e by linarith
      have "t ! k = v ! k" using I c by blast
      then show ?thesis using r3 [OF a] by simp
    qed
    from 1 2 3 show "?I (Suc i) t'" by blast
  qed
qed

lemma grid_spec:
  fixes C :: "nat \<Rightarrow> nat \<Rightarrow> nat \<Rightarrow> nat option"
  assumes run: "for_upto n (\<lambda>z vox. for_upto n (\<lambda>y vox.
            for_upto n (\<lambda>x vox. do { b \<leftarrow> C x y z; Some (vox[(z * n + y) * n + x := b]) }) vox) vox) v = Some v'"
    and len: "n * n * n \<le> length v"
  shows "length v' = length v \<and> (\<forall>z<n. \<forall>y<n. \<forall>x<n. C x y z = Some (v' ! ((z * n + y) * n + x)))"
proof -
  let ?I = "\<lambda>i t. length t = length v \<and> (\<forall>z<i. \<forall>y<n. \<forall>x<n. C x y z = Some (t ! ((z * n + y) * n + x)))"
  show ?thesis
  proof (rule for_upto_rule [OF run, of ?I])
    show "?I 0 v" by simp
  next
    fix i t t'
    assume i: "i < n" and I: "?I i t"
      and b: "for_upto n (\<lambda>y vox.
            for_upto n (\<lambda>x vox. do { b \<leftarrow> C x y i; Some (vox[(i * n + y) * n + x := b]) }) vox) t = Some t'"
    have "(i * n + n) * n = Suc i * n * n" by simp
    moreover have "Suc i * n * n \<le> n * n * n" using i by (intro mult_le_mono1) simp
    moreover have "length t = length v" using I by blast
    ultimately have l: "(i * n + n) * n \<le> length t" using len by linarith
    from layer_spec [of n "\<lambda>x y. C x y i" "i * n" t t', OF b l]
    have r1: "length t' = length t"
      and r2: "\<And>x y. y < n \<Longrightarrow> x < n \<Longrightarrow> C x y i = Some (t' ! ((i * n + y) * n + x))"
      and r3: "\<And>k. k < i * n * n \<or> (i * n + n) * n \<le> k \<Longrightarrow> t' ! k = t ! k"
      by blast+
    have 1: "length t' = length v" using r1 I by simp
    have 2: "C x y z = Some (t' ! ((z * n + y) * n + x))" if "z < Suc i" "y < n" "x < n" for x y z
    proof (cases "z = i")
      case True
      then show ?thesis using r2 that by simp
    next
      case False
      with that have z: "z < i" by simp
      then have "z * n + y < i * n" using that by (intro idx_lt) simp_all
      then have "(z * n + y) * n + x < i * n * n" using that(3) by (rule idx_lt)
      then have "t' ! ((z * n + y) * n + x) = t ! ((z * n + y) * n + x)" using r3 by simp
      then show ?thesis using I z that by simp
    qed
    from 1 2 show "?I (Suc i) t'" by blast
  qed
qed

lemma make3DNoiseTex_cells:
  assumes "make3DNoiseTex N octaves lacunarity gain seed junk = Some vox"
  shows "length vox = nat N * nat N * nat N \<and>
    (\<forall>z<nat N. \<forall>y<nat N. \<forall>x<nat N.
       bake_cell (Perlin3D_new seed junk) octaves lacunarity gain (fdiv 1 (fl (of_int N)))
         (int x) (int y) (int z) = Some (vox ! ((z * nat N + y) * nat N + x)))"
proof -
  define n where "n = nat N"
  from assms have N: "0 \<le> N" by (auto simp add: make3DNoiseTex_def split: if_splits)
  then have Nn: "N = int n" by (simp add: n_def)
  have idx: "nat ((int z * int n + int y) * int n + int x) = (z * n + y) * n + x" for x y z
    by (simp add: nat_add_distrib nat_mult_distrib flip: of_nat_mult of_nat_add)
  have len: "nat (int n * int n * int n) = n * n * n"
    by (simp flip: of_nat_mult)
  from assms have run: "for_upto n (\<lambda>z vox. for_upto n (\<lambda>y vox.
      for_upto n (\<lambda>x vox. do {
          b \<leftarrow> bake_cell (Perlin3D_new seed junk) octaves lacunarity gain (fdiv 1 (fl (of_int (int n))))
                (int x) (int y) (int z);
          Some (vox[(z * n + y) * n + x := b]) }) vox) vox) (replicate (n * n * n) 0) = Some vox"
    unfolding make3DNoiseTex_def Nn Let_def idx len by (simp split: if_splits)
  from grid_spec [of n "\<lambda>x y z. bake_cell (Perlin3D_new seed junk) octaves lacunarity gain
        (fdiv 1 (fl (of_int (int n)))) (int x) (int y) (int z)" "replicate (n * n * n) 0" vox, OF run]
  show ?thesis unfolding Nn by (simp add: n_def [symmetric])
qed


section \<open>Where the bake is defined\<close>


lemma finite32_ok:
  assumes "\<bar>v\<bar> \<le> 2 ^ n" "n \<le> 100"
  shows "finite32 v = Some v"
proof -
  have "\<bar>v\<bar> \<le> 2 ^ 100" using assms by (rule abs_le_pow2_mono)
  moreover have "(2::real) ^ 100 \<le> FLT_MAX" by (simp add: FLT_MAX_def)
  ultimately show ?thesis by (simp add: finite32_def)
qed

lemma fmul_range:
  assumes "0 \<le> a" "a \<le> 2 ^ m" "0 \<le> b" "b \<le> 2 ^ n"
  shows "0 \<le> fmul a b \<and> fmul a b \<le> 2 ^ (m + n)"
proof -
  have "a * b \<le> 2 ^ m * 2 ^ n" using assms by (intro mult_mono) simp_all
  then have "a * b \<le> 2 ^ (m + n)" by (simp add: power_add)
  then have "fl (a * b) \<le> 2 ^ (m + n)" by (rule fl_le_pow2)
  moreover have "0 \<le> fl (a * b)" using assms by (intro fl_nonneg) simp
  ultimately show ?thesis by (simp add: fmul_def)
qed

lemma coord_defined:
  assumes "0 \<le> fx" "fx \<le> 2 ^ 11" "0 \<le> freq" "freq \<le> 2 ^ (2 * k)" "k \<le> 8"
  shows "to_int (floorf (fmul (fmul fx freq) 8)) \<noteq> None"
proof -
  from fmul_range [OF assms(1-4)]
  have a: "0 \<le> fmul fx freq" "fmul fx freq \<le> 2 ^ (11 + 2 * k)" by simp_all
  have "(0::real) \<le> 8" "(8::real) \<le> 2 ^ 3" by simp_all
  from fmul_range [OF a this]
  have c: "0 \<le> fmul (fmul fx freq) 8" "fmul (fmul fx freq) 8 \<le> 2 ^ (11 + 2 * k + 3)" by simp_all
  have "(2::real) ^ (11 + 2 * k + 3) \<le> 2 ^ 30" using assms(5) by (intro power_increasing) simp_all
  with c(2) have "fmul (fmul fx freq) 8 < 2 ^ 31" by simp
  then have "\<lfloor>fmul (fmul fx freq) 8\<rfloor> < 2 ^ 31" by (simp add: floor_less_iff)
  moreover have "0 \<le> \<lfloor>fmul (fmul fx freq) 8\<rfloor>" using c(1) by simp
  ultimately show ?thesis by (simp add: to_int_floorf_eq)
qed

lemma fbm_defined:
  assumes "0 \<le> lacunarity" "lacunarity \<le> 4" "\<bar>gain\<bar> \<le> 1"
    and "0 \<le> fx" "fx \<le> 2 ^ 11" "0 \<le> fy" "fy \<le> 2 ^ 11" "0 \<le> fz" "fz \<le> 2 ^ 11"
    and "k + n \<le> 9" "\<bar>f\<bar> \<le> 2 ^ (27 + k)" "\<bar>amp\<bar> \<le> 1" "0 \<le> freq" "freq \<le> 2 ^ (2 * k)"
  shows "fbm n (Perlin3D_new seed junk) lacunarity gain fx fy fz (f, amp, freq) \<noteq> None"
  using assms(10-14)
proof (induction n arbitrary: f amp freq k)
  case 0
  then show ?case by simp
next
  case (Suc n)
  have k: "k \<le> 8" using Suc.prems(1) by simp
  have "noise (Perlin3D_new seed junk) (fmul (fmul fx freq) 8) (fmul (fmul fy freq) 8)
           (fmul (fmul fz freq) 8) \<noteq> None"
    using assms(4-9) Suc.prems(4,5) k by (intro noise_defined coord_defined)
  then obtain nz where nz: "noise (Perlin3D_new seed junk) (fmul (fmul fx freq) 8)
      (fmul (fmul fy freq) 8) (fmul (fmul fz freq) 8) = Some nz"
    by auto
  have a0: "\<bar>amp\<bar> \<le> 2 ^ 0" using Suc.prems(3) by simp
  from fmul_abs [OF a0 noise_abs [OF nz]] have "\<bar>fmul amp nz\<bar> \<le> 2 ^ 27" by simp
  then have t: "\<bar>fmul amp nz\<bar> \<le> 2 ^ (27 + k)" by (rule abs_le_pow2_mono) simp
  from fadd_abs [OF Suc.prems(2) t]
  have f': "\<bar>fadd f (fmul amp nz)\<bar> \<le> 2 ^ (27 + Suc k)" by simp
  have ff: "finite32 (fadd f (fmul amp nz)) = Some (fadd f (fmul amp nz))"
    using k by (intro finite32_ok [OF f']) simp
  have "(0::real) \<le> lacunarity" "lacunarity \<le> 2 ^ 2" using assms(1,2) by simp_all
  from fmul_range [OF Suc.prems(4,5) this]
  have q: "0 \<le> fmul freq lacunarity" "fmul freq lacunarity \<le> 2 ^ (2 * Suc k)" by simp_all
  then have "\<bar>fmul freq lacunarity\<bar> \<le> 2 ^ (2 * Suc k)" by simp
  then have fq: "finite32 (fmul freq lacunarity) = Some (fmul freq lacunarity)"
    using k by (intro finite32_ok [of _ "2 * Suc k"]) simp_all
  have g0: "\<bar>gain\<bar> \<le> 2 ^ 0" using assms(3) by simp
  from fmul_abs [OF a0 g0] have a': "\<bar>fmul amp gain\<bar> \<le> 1" by simp
  then have "\<bar>fmul amp gain\<bar> \<le> 2 ^ 0" by simp
  then have fa: "finite32 (fmul amp gain) = Some (fmul amp gain)" by (rule finite32_ok) simp
  have "fbm n (Perlin3D_new seed junk) lacunarity gain fx fy fz
          (fadd f (fmul amp nz), fmul amp gain, fmul freq lacunarity) \<noteq> None"
    using Suc.prems(1) f' a' q by (intro Suc.IH [of "Suc k"]) simp_all
  then show ?case by (simp add: nz ff fq fa)
qed

lemma cell_coord_range:
  assumes "1 \<le> N" "0 \<le> x" "x \<le> 2 ^ 11"
  shows "0 \<le> fmul (fl (of_int x)) (fdiv 1 (fl (of_int N))) \<and>
         fmul (fl (of_int x)) (fdiv 1 (fl (of_int N))) \<le> 2 ^ 11"
proof -
  have "fl 1 \<le> fl (of_int N)" using assms(1) by (intro fl_mono) simp
  then have n: "1 \<le> fl (of_int N)" using fl_pow2 [of 0] by simp
  then have "1 / fl (of_int N) \<le> 2 ^ 0" "0 \<le> 1 / fl (of_int N)" by simp_all
  then have i: "0 \<le> fdiv 1 (fl (of_int N))" "fdiv 1 (fl (of_int N)) \<le> 2 ^ 0"
    unfolding fdiv_def by (simp_all only: fl_le_pow2 fl_nonneg)
  have "real_of_int x \<le> 2 ^ 11" "0 \<le> real_of_int x" using assms(2,3) by simp_all
  then have x: "0 \<le> fl (of_int x)" "fl (of_int x) \<le> 2 ^ 11"
    by (simp_all only: fl_le_pow2 fl_nonneg)
  from fmul_range [OF x i] show ?thesis by simp
qed

lemma bake_cell_defined:
  assumes "0 \<le> lacunarity" "lacunarity \<le> 4" "\<bar>gain\<bar> \<le> 1" "octaves \<le> 9"
    and "1 \<le> N" "0 \<le> x" "x \<le> 2 ^ 11" "0 \<le> y" "y \<le> 2 ^ 11" "0 \<le> z" "z \<le> 2 ^ 11"
  shows "bake_cell (Perlin3D_new seed junk) octaves lacunarity gain (fdiv 1 (fl (of_int N))) x y z \<noteq> None"
proof -
  note cx = cell_coord_range [OF assms(5,6,7)] and cy = cell_coord_range [OF assms(5,8,9)]
    and cz = cell_coord_range [OF assms(5,10,11)]
  have "fbm (nat octaves) (Perlin3D_new seed junk) lacunarity gain
      (fmul (fl (of_int x)) (fdiv 1 (fl (of_int N)))) (fmul (fl (of_int y)) (fdiv 1 (fl (of_int N))))
      (fmul (fl (of_int z)) (fdiv 1 (fl (of_int N)))) (0, 1, 1) \<noteq> None"
    using assms(1-4) cx cy cz by (intro fbm_defined [where k = 0]) simp_all
  then obtain st where st: "fbm (nat octaves) (Perlin3D_new seed junk) lacunarity gain
      (fmul (fl (of_int x)) (fdiv 1 (fl (of_int N)))) (fmul (fl (of_int y)) (fdiv 1 (fl (of_int N))))
      (fmul (fl (of_int z)) (fdiv 1 (fl (of_int N)))) (0, 1, 1) = Some st"
    by auto
  obtain f amp freq where "st = (f, amp, freq)" by (cases st)
  with st show ?thesis
    using to_uchar_round [of "clamp01 (fdiv f (fl (3 / 2)))"] clamp01_range [of "fdiv f (fl (3 / 2))"]
    by (simp add: bake_cell_def)
qed

lemma for_upto_defined:
  assumes "\<And>i t. i < n \<Longrightarrow> body i t \<noteq> None"
  shows "for_upto n body s \<noteq> None"
  using assms
proof (induction n)
  case 0
  then show ?case by (simp add: for_upto_def)
next
  case (Suc n)
  then have "for_upto n body s \<noteq> None" by simp
  then obtain t where "for_upto n body s = Some t" by auto
  then show ?case using Suc.prems [of n t] by (simp add: for_upto_Suc)
qed

lemma make3DNoiseTex_defined:
  assumes "0 \<le> N" "N * N * N < 2 ^ 31" "0 \<le> lacunarity" "lacunarity \<le> 4" "\<bar>gain\<bar> \<le> 1" "octaves \<le> 9"
  shows "make3DNoiseTex N octaves lacunarity gain seed junk \<noteq> None"
proof -
  have N: "N \<le> 2 ^ 11"
  proof (rule ccontr)
    assume "\<not> N \<le> 2 ^ 11"
    then have n: "2 ^ 11 \<le> N" by simp
    have "(2 ^ 11 * 2 ^ 11) * 2 ^ 11 \<le> (N * N) * N"
      using n by (intro mult_mono) simp_all
    with assms(2) show False by simp
  qed
  have cell: "(do { b \<leftarrow> bake_cell (Perlin3D_new seed junk) octaves lacunarity gain (fdiv 1 (fl (of_int N)))
                 (int x) (int y) (int z);
               Some (vox[nat ((int z * N + int y) * N + int x) := b]) }) \<noteq> None"
    if "x < nat N" "y < nat N" "z < nat N" for x y z and vox :: "nat list"
  proof -
    have "bake_cell (Perlin3D_new seed junk) octaves lacunarity gain (fdiv 1 (fl (of_int N)))
                 (int x) (int y) (int z) \<noteq> None"
      using assms(3-6) that N by (intro bake_cell_defined) simp_all
    then show ?thesis by auto
  qed
  show ?thesis
    unfolding make3DNoiseTex_def Let_def using assms(1,2)
    by (simp add: for_upto_defined cell)
qed


section \<open>The baked grid\<close>


lemma index_decompose:
  assumes "k < n * n * n"
  shows "\<exists>x y z. x < n \<and> y < n \<and> z < n \<and> k = (z * n + y) * (n::nat) + x"
proof -
  have n: "0 < n" using assms by (cases n) simp_all
  let ?x = "k mod n" and ?q = "k div n"
  let ?y = "?q mod n" and ?z = "?q div n"
  have "?q < n * n" using assms n by (simp add: less_mult_imp_div_less mult.commute)
  then have z: "?z < n" using n by (simp add: less_mult_imp_div_less)
  have "k = ?q * n + ?x" by simp
  moreover have "?q = ?z * n + ?y" by simp
  ultimately have "k = (?z * n + ?y) * n + ?x" by simp
  with n z show ?thesis by (intro exI [of _ ?x] exI [of _ ?y] exI [of _ ?z]) simp
qed

lemma make3DNoiseTex_bytes:
  assumes "make3DNoiseTex N octaves lacunarity gain seed junk = Some vox" "k < length vox"
  shows "vox ! k \<le> 255"
proof -
  from make3DNoiseTex_cells [OF assms(1)] have len: "length vox = nat N * nat N * nat N"
    and cells: "\<And>x y z. z < nat N \<Longrightarrow> y < nat N \<Longrightarrow> x < nat N \<Longrightarrow>
       bake_cell (Perlin3D_new seed junk) octaves lacunarity gain (fdiv 1 (fl (of_int N)))
         (int x) (int y) (int z) = Some (vox ! ((z * nat N + y) * nat N + x))"
    by blast+
  from assms(2) len obtain x y z where
    "x < nat N" "y < nat N" "z < nat N" "k = (z * nat N + y) * nat N + x"
    using index_decompose [of k "nat N"] by auto
  with cells [of z y x] bake_cell_formula show ?thesis by blast
qed

lemma shipped_parameters:
  "0 \<le> fl (201 / 100) \<and> fl (201 / 100) \<le> 4 \<and> \<bar>fl (52 / 100)\<bar> \<le> 1"
  by code_simp

text \<open>
  C5.  A cell that the bake computes holds \<open>round(255 * clamp01(S / 1.5))\<close>, where \<open>S\<close>
  is the fractal sum of the specification over \<open>octaves\<close> octaves at the coordinates of
  the cell scaled by \<open>1/N\<close>, and is at most 255: the conversion to \<^verbatim>\<open>unsigned char\<close>
  never leaves \<open>0..255\<close>.  A finished bake has \<open>N\<^sup>3\<close> bytes, the byte at
  \<open>(z * N + y) * N + x\<close> is the one of cell \<open>(x, y, z)\<close>, and every byte is at most 255.
  The bake does finish, with no cast or accumulator out of range, for every seed whenever
  \<open>N\<^sup>3\<close> fits an \<^verbatim>\<open>int\<close>, the lacunarity is in \<open>[0,4]\<close>, the gain in \<open>[-1,1]\<close> and there
  are at most 9 octaves; the parameters of \<^verbatim>\<open>main\<close> are in these ranges.
\<close>

theorem bake_formula_and_bounds:
  "(bake_cell per octaves lacunarity gain invN x y z = Some c \<longrightarrow>
      (\<exists>S. fbm_sum per lacunarity gain (fmul (fl (of_int x)) invN) (fmul (fl (of_int y)) invN)
              (fmul (fl (of_int z)) invN) (nat octaves) = Some S \<and>
           int c = quantize S \<and> c \<le> 255)) \<and>
   (make3DNoiseTex N octaves lacunarity gain seed junk = Some vox \<longrightarrow>
      length vox = nat N * nat N * nat N \<and>
      (\<forall>k<length vox. vox ! k \<le> 255) \<and>
      (\<forall>k<nat N. \<forall>j<nat N. \<forall>i<nat N.
         bake_cell (Perlin3D_new seed junk) octaves lacunarity gain (fdiv 1 (fl (of_int N)))
           (int i) (int j) (int k) = Some (vox ! ((k * nat N + j) * nat N + i)))) \<and>
   (0 \<le> N \<and> N * N * N < 2 ^ 31 \<and> 0 \<le> lacunarity \<and> lacunarity \<le> 4 \<and> \<bar>gain\<bar> \<le> 1 \<and> octaves \<le> 9 \<longrightarrow>
      make3DNoiseTex N octaves lacunarity gain seed junk \<noteq> None)"
proof (intro conjI impI)
  assume "bake_cell per octaves lacunarity gain invN x y z = Some c"
  then show "\<exists>S. fbm_sum per lacunarity gain (fmul (fl (of_int x)) invN) (fmul (fl (of_int y)) invN)
              (fmul (fl (of_int z)) invN) (nat octaves) = Some S \<and>
           int c = quantize S \<and> c \<le> 255"
    by (rule bake_cell_formula)
next
  assume m: "make3DNoiseTex N octaves lacunarity gain seed junk = Some vox"
  from make3DNoiseTex_cells [OF m] show "length vox = nat N * nat N * nat N"
    and "\<forall>k<nat N. \<forall>j<nat N. \<forall>i<nat N.
         bake_cell (Perlin3D_new seed junk) octaves lacunarity gain (fdiv 1 (fl (of_int N)))
           (int i) (int j) (int k) = Some (vox ! ((k * nat N + j) * nat N + i))"
    by blast+
  from make3DNoiseTex_bytes [OF m] show "\<forall>k<length vox. vox ! k \<le> 255" by blast
next
  assume "0 \<le> N \<and> N * N * N < 2 ^ 31 \<and> 0 \<le> lacunarity \<and> lacunarity \<le> 4 \<and> \<bar>gain\<bar> \<le> 1 \<and> octaves \<le> 9"
  then show "make3DNoiseTex N octaves lacunarity gain seed junk \<noteq> None"
    by (intro make3DNoiseTex_defined) simp_all
qed

lemma bake_cell_eval:
  "bake_cell \<lparr>p = perm42 @ perm42\<rparr> 1 (fl (201 / 100)) (fl (52 / 100)) (fdiv 1 (fl (of_int 96))) 1 2 3 = Some 111"
  by code_simp

lemma bake_cell_42:
  "bake_cell (Perlin3D_new 42 junk) 1 (fl (201 / 100)) (fl (52 / 100)) (fdiv 1 (fl (of_int 96))) 1 2 3 = Some 111"
  by (simp only: table_42 bake_cell_eval)

theorem bake_formula_and_bounds_witness:
  "bake_cell (Perlin3D_new 42 (\<lambda>_. 0)) 1 (fl (201 / 100)) (fl (52 / 100)) (fdiv 1 (fl (of_int 96))) 1 2 3 = Some 111 \<and>
   (\<exists>S. fbm_sum (Perlin3D_new 42 (\<lambda>_. 0)) (fl (201 / 100)) (fl (52 / 100)) (fmul (fl (of_int 1)) (fdiv 1 (fl (of_int 96))))
           (fmul (fl (of_int 2)) (fdiv 1 (fl (of_int 96)))) (fmul (fl (of_int 3)) (fdiv 1 (fl (of_int 96)))) (nat 1) = Some S \<and>
        int 111 = quantize S \<and> (111::nat) \<le> 255) \<and>
   (0::int) \<le> 96 \<and> (96::int) * 96 * 96 < 2 ^ 31 \<and> 0 \<le> fl (201 / 100) \<and> fl (201 / 100) \<le> 4 \<and>
   \<bar>fl (52 / 100)\<bar> \<le> 1 \<and> (5::int) \<le> 9 \<and>
   (\<exists>vox. make3DNoiseTex 96 5 (fl (201 / 100)) (fl (52 / 100)) 42 (\<lambda>_. 0) = Some vox \<and>
      length vox = 884736 \<and> vox ! 0 \<le> 255 \<and> vox ! 884735 \<le> 255 \<and>
      bake_cell (Perlin3D_new 42 (\<lambda>_. 0)) 5 (fl (201 / 100)) (fl (52 / 100)) (fdiv 1 (fl (of_int 96)))
        (int 1) (int 2) (int 3) = Some (vox ! ((3 * nat 96 + 2) * nat 96 + 1)))"
proof -
  note c = bake_cell_42 [of "\<lambda>_. 0"]
  from bake_formula_and_bounds [where per = "Perlin3D_new 42 (\<lambda>_. 0)" and octaves = 1
      and lacunarity = "fl (201 / 100)" and gain = "fl (52 / 100)" and invN = "fdiv 1 (fl (of_int 96))"
      and x = 1 and y = 2 and z = 3 and c = 111] c
  have a: "(\<exists>S. fbm_sum (Perlin3D_new 42 (\<lambda>_. 0)) (fl (201 / 100)) (fl (52 / 100)) (fmul (fl (of_int 1)) (fdiv 1 (fl (of_int 96))))
           (fmul (fl (of_int 2)) (fdiv 1 (fl (of_int 96)))) (fmul (fl (of_int 3)) (fdiv 1 (fl (of_int 96)))) (nat 1) = Some S \<and>
        int 111 = quantize S \<and> (111::nat) \<le> 255)"
    by blast
  have r: "(0::int) \<le> 96 \<and> (96::int) * 96 * 96 < 2 ^ 31 \<and> 0 \<le> fl (201 / 100) \<and> fl (201 / 100) \<le> 4 \<and>
      \<bar>fl (52 / 100)\<bar> \<le> 1 \<and> (5::int) \<le> 9"
    using shipped_parameters by simp
  from bake_formula_and_bounds [where N = 96 and octaves = 5
      and lacunarity = "fl (201 / 100)" and gain = "fl (52 / 100)" and seed = 42 and junk = "\<lambda>_. 0"] r
  have "make3DNoiseTex 96 5 (fl (201 / 100)) (fl (52 / 100)) 42 (\<lambda>_. 0) \<noteq> None"
    by blast
  then obtain vox where v: "make3DNoiseTex 96 5 (fl (201 / 100)) (fl (52 / 100)) 42 (\<lambda>_. 0) = Some vox"
    by auto
  from bake_formula_and_bounds [where N = 96 and octaves = 5
      and lacunarity = "fl (201 / 100)" and gain = "fl (52 / 100)" and seed = 42 and junk = "\<lambda>_. 0"
      and vox = vox] v
  have l: "length vox = nat 96 * nat 96 * nat 96"
    and b: "\<forall>k<length vox. vox ! k \<le> 255"
    and g: "\<forall>k<nat 96. \<forall>j<nat 96. \<forall>i<nat 96.
         bake_cell (Perlin3D_new 42 (\<lambda>_. 0)) 5 (fl (201 / 100)) (fl (52 / 100)) (fdiv 1 (fl (of_int 96)))
           (int i) (int j) (int k) = Some (vox ! ((k * nat 96 + j) * nat 96 + i))"
    by blast+
  have l': "length vox = 884736" using l by simp
  have b0: "vox ! 0 \<le> 255" and b1: "vox ! 884735 \<le> 255" using b l' by simp_all
  have g': "bake_cell (Perlin3D_new 42 (\<lambda>_. 0)) 5 (fl (201 / 100)) (fl (52 / 100)) (fdiv 1 (fl (of_int 96)))
        (int 1) (int 2) (int 3) = Some (vox ! ((3 * nat 96 + 2) * nat 96 + 1))"
  proof -
    have "(3::nat) < nat 96" and "(2::nat) < nat 96" and "(1::nat) < nat 96" by simp_all
    with g show ?thesis by blast
  qed
  from v l' b0 b1 g' have "\<exists>vox. make3DNoiseTex 96 5 (fl (201 / 100)) (fl (52 / 100)) 42 (\<lambda>_. 0) = Some vox \<and>
      length vox = 884736 \<and> vox ! 0 \<le> 255 \<and> vox ! 884735 \<le> 255 \<and>
      bake_cell (Perlin3D_new 42 (\<lambda>_. 0)) 5 (fl (201 / 100)) (fl (52 / 100)) (fdiv 1 (fl (of_int 96)))
        (int 1) (int 2) (int 3) = Some (vox ! ((3 * nat 96 + 2) * nat 96 + 1))"
    by blast
  with a c r show ?thesis by blast
qed

text \<open>
  C1.  What a run of the constructor leaves in \<open>p\<close> does not depend on what the array
  held before (the one thing that can differ between two executions with the same
  arguments): the table is the permutation that the shuffle yields from the seed, twice
  over, and the shuffle draws from the generator \<open>s \<mapsto> s * 1664525 + 1013904223\<close> modulo
  \<open>2\<^sup>3\<^sup>2\<close>.  Hence \<open>noise\<close> and the baked grid are the same in both executions.
\<close>

theorem bake_deterministic:
  "Perlin3D_new seed junk = Perlin3D_new seed junk' \<and>
   Perlin3D_new seed junk = \<lparr>p = map (\<lambda>i. shuffled seed ! (i mod 256)) [0..<512]\<rparr> \<and>
   unat (lcg s) = (unat s * 1664525 + 1013904223) mod 2 ^ 32 \<and>
   noise (Perlin3D_new seed junk) x y z = noise (Perlin3D_new seed junk') x y z \<and>
   make3DNoiseTex N octaves lacunarity gain seed junk =
     make3DNoiseTex N octaves lacunarity gain seed junk'"
proof -
  have t: "Perlin3D_new seed junk = Perlin3D_new seed junk'" by (simp only: table_record)
  have l: "unat (lcg s) = (unat s * 1664525 + 1013904223) mod 2 ^ 32"
    by (simp add: lcg_def unat_word_ariths mod_simps)
  have m: "make3DNoiseTex N octaves lacunarity gain seed junk =
     make3DNoiseTex N octaves lacunarity gain seed junk'"
    by (simp only: make3DNoiseTex_def t)
  from t l m show ?thesis by (simp add: table_record)
qed


end
